theory Spec2Isabelle
  imports Main "HOL-Library.Word"
begin

section \<open>Bucket copy / transform job (package mirror): data model\<close>

text \<open>
  The development embeds the bucket-copy job \<open>XactTCB\<close> and its factory
  \<open>tcbFactory\<close>. Shared mutable state of the Go code is passed explicitly; a
  callback that runs on another goroutine (\<open>recv\<close>) is a function on the job state
  that the environment applies between the steps of \<open>Run\<close>. Wait groups and the
  atomicity of the individual counter updates are not represented: every operation
  below is one atomic step.
\<close>

subsection \<open>Errors and panics\<close>

text \<open>
  Go \<open>error\<close> values. \<open>ErrConflict\<close> is the \<open>fmt.Errorf\<close> of
  \<open>WhenPrevIsRunning\<close> (running job, new job), \<open>ErrAborted\<close> is
  \<open>cmn.NewErrAborted(what, ctx, cause)\<close>, \<open>ErrQuiesceTimeout\<close> is the
  \<open>fmt.Errorf("%s: %v", r, cmn.ErrQuiesceTimeout)\<close> of \<open>Run\<close>. The remaining
  constructors stand for the errors of the collaborators: an out-of-space error, a
  clean end of stream, and any other error.
\<close>

datatype error =
    ErrOOS string
  | ErrEOF
  | ErrOther string
  | ErrConflict string string
  | ErrAborted string string "error option"
  | ErrQuiesceTimeout string

text \<open>
  Modelled from the spec: \<open>cos.IsErrOOS\<close>, \<open>cos.IsEOF\<close> and
  \<open>cmn.IsErrAborted\<close> (packages cmn and cmn/cos are not among the sources) are the
  classifiers of the three error kinds the spec names: out-of-space, clean
  end-of-stream, aborted.
\<close>

fun IsErrOOS :: "error \<Rightarrow> bool" where
  "IsErrOOS (ErrOOS _) = True"
| "IsErrOOS _ = False"

fun IsEOF :: "error \<Rightarrow> bool" where
  "IsEOF ErrEOF = True"
| "IsEOF _ = False"

fun IsErrAborted :: "error \<Rightarrow> bool" where
  "IsErrAborted (ErrAborted _ _ _) = True"
| "IsErrAborted _ = False"

definition NewErrAborted :: "string \<Rightarrow> string \<Rightarrow> error option \<Rightarrow> error" where
  "NewErrAborted what ctx cause = ErrAborted what ctx cause"

text \<open>A Go panic: a failed assertion or a nil pointer dereference.\<close>

datatype panic = AssertFailed | NilDeref

text \<open>
  Modelled from the spec: \<open>debug.Assert\<close> (package cmn/debug is not among the
  sources) is "fatal in debug builds" and has no effect otherwise. The build mode
  is the parameter \<open>dbg\<close> of every function that asserts.
\<close>

definition debug_Assert :: "bool \<Rightarrow> bool \<Rightarrow> panic option" where
  "debug_Assert dbg cond = (if dbg \<and> \<not> cond then Some AssertFailed else None)"

subsection \<open>Constants\<close>

definition doneSendingOpcode :: int where
  "doneSendingOpcode = 27182"

text \<open>
  Modelled from the spec: the admission phases \<open>begin\<close> and \<open>commit\<close>
  (\<open>cmn.ActBegin\<close>, \<open>cmn.ActCommit\<close>) and the sentinel of a size that is not
  known (\<open>cos.ContentLengthUnknown\<close>); package cmn is not among the sources. No
  theorem below depends on the value chosen for the sentinel.
\<close>

definition ActBegin :: string where
  "ActBegin = ''begin''"

definition ActCommit :: string where
  "ActCommit = ''commit''"

definition ContentLengthUnknown :: "64 word" where
  "ContentLengthUnknown = - 1"

subsection \<open>Buckets, job arguments, copy parameters\<close>

record Bck =
  bname :: string
  provider :: string
  bid :: nat
  backend :: "string option"

text \<open>
  Modelled from the spec: \<open>cluster.Bck.Equal(other, sameID, sameBackend)\<close>
  (package cluster is not among the sources) compares the bucket identity, and the
  bucket ID and the backend when asked to ("same identity, same backend").
\<close>

definition Bck_Equal :: "Bck \<Rightarrow> Bck \<Rightarrow> bool \<Rightarrow> bool \<Rightarrow> bool" where
  "Bck_Equal a b sameID sameBackend =
     (bname a = bname b \<and> provider a = provider b \<and>
      (if sameID then bid a = bid b else True) \<and>
      (if sameBackend then backend a = backend b else True))"

text \<open>
  \<open>cmn.CopyBckMsg\<close> as far as the job reads it: the renaming rule \<open>ToName\<close>
  and the dry-run flag.
\<close>

record CopyBckMsg =
  ToName :: "string \<Rightarrow> string"
  DryRun :: bool

record TCBArgs =
  Phase :: string
  BckFrom :: Bck
  BckTo :: Bck
  Msg :: CopyBckMsg
  DP :: "string option"

text \<open>
  \<open>cluster.CopyObjectParams\<close> with the six fields \<open>copyObject\<close> sets. Pointers,
  the slice and the interface are options; \<open>None\<close> is nil. The data mover is
  referred to by its endpoint name.
\<close>

record CopyObjectParams =
  p_BckTo :: "Bck option"
  p_ObjNameTo :: string
  p_Buf :: "8 word list option"
  p_DM :: "string option"
  p_DP :: "string option"
  p_DryRun :: bool

record LOM =
  ObjName :: string
  SizeBytes :: "64 word"

subsection \<open>The job and its factory\<close>

record DataMover =
  trname :: string
  isOpen :: bool
  registered :: bool

text \<open>
  What the job does to its collaborators, in the order it does it. \<open>EvCopyObject\<close>
  is the call of \<open>Target.CopyObject\<close> with the parameters passed; it is the only
  place where this node hands data to the data mover.
\<close>

datatype event =
    EvDmOpen
  | EvCopyObject string CopyObjectParams
  | EvBcast int
  | EvDmClose "error option"
  | EvUnregRecv
  | EvFinish "error option"
  | EvLogError error
  | EvPutObject string
  | EvDrainReader
  | EvFreeRecv

text \<open>
  \<open>XactTCB\<close>: \<open>xname\<close>, \<open>objs\<close>, \<open>bytes\<close> and \<open>fin\<close> are the embedded
  \<open>xaction.XactBckJog\<close> (name, the two counters, and the terminal error once
  \<open>Finish\<close> ran); \<open>refc\<close> is the \<open>atomic.Int32\<close>, \<open>err\<close> the
  \<open>cos.ErrValue\<close>. \<open>events\<close> is the record of the calls made to collaborators.
  How the job base prints its name is not in the sources: \<open>xname\<close> is any
  string, and \<open>Name\<close> stands for both \<open>r.Name()\<close> and \<open>r.String()\<close>, which
  differ only in that part.
\<close>

record XactTCB =
  xname :: string
  objs :: "64 word"
  bytes :: "64 word"
  fin :: "error option option"
  dm :: "DataMover option"
  xargs :: TCBArgs
  refc :: "32 word"
  err :: "error option"
  events :: "event list"

text \<open>
  \<open>tcbFactory\<close>: \<open>args\<close> is a pointer (an address of the store of
  \<open>TCBArgs\<close> below), \<open>xact\<close> the job once \<open>Start\<close> created it.
\<close>

record tcbFactory =
  uuid :: string
  xact :: "XactTCB option"
  kind :: string
  phase :: string
  args :: nat

type_synonym args_store = "nat \<rightharpoonup> TCBArgs"

datatype WPR = Wpr0 | WprUse

subsection \<open>The pool of copy parameters\<close>

definition cpObj0 :: CopyObjectParams where
  "cpObj0 = \<lparr>p_BckTo = None, p_ObjNameTo = [], p_Buf = None, p_DM = None,
     p_DP = None, p_DryRun = False\<rparr>"

text \<open>
  \<open>sync.Pool\<close> as the list of the structs put back; \<open>Get\<close> takes the last one
  put, or finds the pool empty.
\<close>

type_synonym cpObjPool = "CopyObjectParams list"

definition allocCpObjParams :: "cpObjPool \<Rightarrow> CopyObjectParams \<times> cpObjPool" where
  "allocCpObjParams pool =
     (case pool of
        a # rest \<Rightarrow> (a, rest)
      | [] \<Rightarrow> (cpObj0, []))"

definition freeCpObjParams :: "CopyObjectParams \<Rightarrow> cpObjPool \<Rightarrow> cpObjPool" where
  "freeCpObjParams a pool = (let a' = cpObj0 in a' # pool)"

section \<open>tcbFactory\<close>

definition Name :: "XactTCB \<Rightarrow> string" where
  "Name r = xname r @ '' <= '' @ bname (BckFrom (xargs r))"

definition newXactTCB :: "tcbFactory \<Rightarrow> TCBArgs \<Rightarrow> XactTCB" where
  "newXactTCB e a =
     \<lparr>xname = kind e @ ''['' @ uuid e @ '']'', objs = 0, bytes = 0, fin = None,
      dm = None, xargs = a, refc = 0, err = None, events = []\<rparr>"

text \<open>
  \<open>Start\<close>. The collaborators' answers are arguments: \<open>slab_err\<close> is the error of
  \<open>GetSlab\<close> (\<open>cos.AssertNoErr\<close> panics on it), \<open>countTargets\<close> is
  \<open>smap.CountTargets()\<close>, \<open>newdm_err\<close> and \<open>reg_err\<close> are the errors of
  \<open>bundle.NewDataMover\<close> and \<open>dm.RegRecv\<close>. The conversion \<open>int32(...)\<close>
  keeps the low 32 bits.
\<close>

definition newDM :: "error option \<Rightarrow> error option \<Rightarrow> tcbFactory \<Rightarrow> XactTCB
    \<Rightarrow> error option \<times> XactTCB" where
  "newDM newdm_err reg_err e x =
     (case newdm_err of
        Some er \<Rightarrow> (Some er, x)
      | None \<Rightarrow>
          (case reg_err of
             Some er \<Rightarrow> (Some er, x)
           | None \<Rightarrow>
               (None, x\<lparr>dm := Some \<lparr>trname = ''transcpy_'' @ uuid e, isOpen = False,
                                    registered = True\<rparr>\<rparr>)))"

definition Start :: "args_store \<Rightarrow> error option \<Rightarrow> int \<Rightarrow> error option \<Rightarrow> error option
    \<Rightarrow> tcbFactory \<Rightarrow> panic + (error option \<times> tcbFactory)" where
  "Start h slab_err countTargets newdm_err reg_err e =
     (case slab_err of
        Some _ \<Rightarrow> Inl AssertFailed
      | None \<Rightarrow>
          (case h (args e) of
             None \<Rightarrow> Inl NilDeref
           | Some a \<Rightarrow>
               (let x = newXactTCB e a;
                    x1 = x\<lparr>refc := word_of_int (countTargets - 1)\<rparr>;
                    (er, x2) = newDM newdm_err reg_err e x1
                in Inr (er, e\<lparr>xact := Some x2\<rparr>))))"

text \<open>
  The two strings of the conflict error: the running job as \<open>%s\<close> prints it
  (\<open>prevEntry.Get()\<close>), and \<open>e.Str(e.Kind())\<close>.
\<close>

definition Get_String :: "tcbFactory \<Rightarrow> string" where
  "Get_String p = (case xact p of None \<Rightarrow> ''<nil>'' | Some x \<Rightarrow> Name x)"

definition Str :: "tcbFactory \<Rightarrow> string" where
  "Str e = kind e @ ''['' @ uuid e @ '']''"

text \<open>
  \<open>WhenPrevIsRunning\<close>. The two factories are read only; the one write goes
  through the pointer \<open>prev.args\<close> into the store. The named results start at
  their zero values (\<open>Wpr0\<close>, nil).
\<close>

definition WhenPrevIsRunning :: "bool \<Rightarrow> args_store \<Rightarrow> tcbFactory \<Rightarrow> tcbFactory
    \<Rightarrow> panic + (WPR \<times> error option \<times> args_store)" where
  "WhenPrevIsRunning dbg h e prev =
     (if uuid e \<noteq> uuid prev then
        Inr (Wpr0, Some (ErrConflict (Get_String prev) (Str e)), h)
      else
        (case h (args prev) of
           None \<Rightarrow> Inl NilDeref
         | Some pa \<Rightarrow>
             (case h (args e) of
                None \<Rightarrow> Inl NilDeref
              | Some ea \<Rightarrow>
                  (let bckEq = Bck_Equal (BckFrom pa) (BckFrom ea) True True in
                   case debug_Assert dbg bckEq of
                     Some pn \<Rightarrow> Inl pn
                   | None \<Rightarrow>
                       (case debug_Assert dbg (phase prev = ActBegin \<and> phase e = ActCommit) of
                          Some pn \<Rightarrow> Inl pn
                        | None \<Rightarrow>
                            Inr (WprUse, None,
                                 h(args prev \<mapsto> pa\<lparr>Phase := ActCommit\<rparr>)))))))"

section \<open>XactTCB\<close>

definition emit :: "event list \<Rightarrow> XactTCB \<Rightarrow> XactTCB" where
  "emit evs r = r\<lparr>events := events r @ evs\<rparr>"

text \<open>
  Modelled from the spec: the counters and the terminal state of the embedded job
  base and the store-once error cell (packages xaction and cmn/cos are not among
  the sources). \<open>ObjectsInc\<close> adds one, \<open>BytesAdd\<close> adds the size, both on 64-bit
  integers; \<open>Finish\<close> records the terminal error; \<open>ErrValue_Store\<close> keeps the
  first error stored.
\<close>

definition ObjectsInc :: "XactTCB \<Rightarrow> XactTCB" where
  "ObjectsInc r = r\<lparr>objs := objs r + 1\<rparr>"

definition BytesAdd :: "64 word \<Rightarrow> XactTCB \<Rightarrow> XactTCB" where
  "BytesAdd n r = r\<lparr>bytes := bytes r + n\<rparr>"

definition Finish :: "error option \<Rightarrow> XactTCB \<Rightarrow> XactTCB" where
  "Finish er r = emit [EvFinish er] (r\<lparr>fin := Some er\<rparr>)"

definition ErrValue_Store :: "error \<Rightarrow> XactTCB \<Rightarrow> XactTCB" where
  "ErrValue_Store e r = (case err r of None \<Rightarrow> r\<lparr>err := Some e\<rparr> | Some _ \<Rightarrow> r)"

text \<open>
  One object of the walk, with the collaborators' answers for it: \<open>copy_result\<close>
  is what \<open>Target.CopyObject\<close> returns, \<open>cap_status\<close> is the \<open>Err\<close> of
  \<open>fs.GetCapStatus()\<close> at that moment. In \<open>copyObject\<close> the source's variable
  \<open>size\<close> is \<open>sz\<close>.
\<close>

record visit =
  v_lom :: LOM
  v_buf :: "8 word list"
  copy_result :: "64 word \<times> error option"
  cap_status :: "error option"

definition copyObject :: "visit \<Rightarrow> XactTCB \<times> cpObjPool
    \<Rightarrow> error option \<times> XactTCB \<times> cpObjPool" where
  "copyObject v s =
     (let (r, pool) = s;
          objNameTo = ToName (Msg (xargs r)) (ObjName (v_lom v));
          (a, pool1) = allocCpObjParams pool;
          params = a\<lparr>p_BckTo := Some (BckTo (xargs r)),
                     p_ObjNameTo := objNameTo,
                     p_Buf := Some (v_buf v),
                     p_DM := map_option trname (dm r),
                     p_DP := DP (xargs r),
                     p_DryRun := DryRun (Msg (xargs r))\<rparr>;
          (sz, cerr) = copy_result v;
          r1 = emit [EvCopyObject (ObjName (v_lom v)) params] r
      in case cerr of
           Some e \<Rightarrow>
             (Some (if IsErrOOS e then NewErrAborted (Name r) ''copy-obj'' (Some e) else e),
              r1, freeCpObjParams params pool1)
         | None \<Rightarrow>
             (let r2 = ObjectsInc r1;
                  sz1 = (if sz = ContentLengthUnknown then SizeBytes (v_lom v) else sz);
                  r3 = BytesAdd sz1 r2;
                  er = (case cap_status v of
                          Some ce \<Rightarrow> Some (NewErrAborted (Name r) ''copy-obj'' (Some ce))
                        | None \<Rightarrow> None)
              in (er, r3, freeCpObjParams params pool1)))"

text \<open>
  One call of the receive handler: the header, the payload, the transport's error,
  and the answers of \<open>lom.Init\<close> and \<open>Target.PutObject\<close> should the handler get
  that far.
\<close>

record ObjHdr =
  Opcode :: int
  h_ObjName :: string
  h_Bck :: Bck

record recv_call =
  hdr :: ObjHdr
  payload :: "8 word list"
  terr :: "error option"
  lom_init :: "error option"
  put_result :: "error option"

text \<open>
  \<open>recv\<close>. The deferred calls run when the handler returns or panics, last
  deferred first: \<open>transport.FreeRecv\<close> is deferred on entry,
  \<open>cos.DrainReader\<close> only after the opcode checks. The state is returned in either
  case, with the panic if there was one.
\<close>

definition recv :: "bool \<Rightarrow> recv_call \<Rightarrow> XactTCB \<Rightarrow> panic option \<times> XactTCB" where
  "recv dbg c r =
     (if (case terr c of None \<Rightarrow> False | Some te \<Rightarrow> \<not> IsEOF te) then
        (None, emit ((case terr c of None \<Rightarrow> [] | Some te \<Rightarrow> [EvLogError te]) @ [EvFreeRecv]) r)
      else if Opcode (hdr c) = doneSendingOpcode then
        (let r1 = r\<lparr>refc := refc r - 1\<rparr>
         in (debug_Assert dbg (0 \<le> sint (refc r1)), emit [EvFreeRecv] r1))
      else
        (case debug_Assert dbg (Opcode (hdr c) = 0) of
           Some pn \<Rightarrow> (Some pn, emit [EvFreeRecv] r)
         | None \<Rightarrow>
             (if err r \<noteq> None then (None, emit [EvDrainReader, EvFreeRecv] r)
              else
                (case lom_init c of
                   Some e \<Rightarrow>
                     (None, emit [EvLogError e, EvDrainReader, EvFreeRecv] (ErrValue_Store e r))
                 | None \<Rightarrow>
                     (case put_result c of
                        Some e \<Rightarrow>
                          (None, emit [EvPutObject (h_ObjName (hdr c)), EvLogError e,
                                       EvDrainReader, EvFreeRecv] (ErrValue_Store e r))
                      | None \<Rightarrow>
                          (None, emit [EvPutObject (h_ObjName (hdr c)), EvDrainReader,
                                       EvFreeRecv] r))))))"

fun recv_all :: "bool \<Rightarrow> recv_call list \<Rightarrow> XactTCB \<Rightarrow> panic + XactTCB" where
  "recv_all dbg [] r = Inr r"
| "recv_all dbg (c # cs) r =
     (case recv dbg c r of
        (Some pn, _) \<Rightarrow> Inl pn
      | (None, r') \<Rightarrow> recv_all dbg cs r')"

text \<open>
  Modelled from the spec: the bucket jogger \<open>XactBckJog.Run\<close> with
  \<open>XactBckJog.Wait\<close> (package xaction and fs/mpather are not among the sources)
  walks the objects of the local shard, calls \<open>copyObject\<close> on each, stops the
  enumeration at the first error and returns it. The walk is interleaved with the
  receive callbacks that run meanwhile.
\<close>

datatype step = Visit visit | Receive recv_call

fun jog :: "bool \<Rightarrow> step list \<Rightarrow> XactTCB \<times> cpObjPool
    \<Rightarrow> panic + (error option \<times> XactTCB \<times> cpObjPool)" where
  "jog dbg [] s = Inr (None, s)"
| "jog dbg (Visit v # rest) s =
     (case copyObject v s of
        (Some e, s') \<Rightarrow> Inr (Some e, s')
      | (None, s') \<Rightarrow> jog dbg rest s')"
| "jog dbg (Receive c # rest) s =
     (case recv dbg c (fst s) of
        (Some pn, _) \<Rightarrow> Inl pn
      | (None, r') \<Rightarrow> jog dbg rest (r', snd s))"

text \<open>
  Modelled from the spec: the result type of the quiescence wait
  (\<open>cluster.QuiRes\<close>; package cluster is not among the sources) with the three
  outcomes the spec names. The wait itself (\<open>XactBase.Quiesce\<close> with
  \<open>xaction.RefcntQuiCB\<close>) depends on real time; its outcome is an argument of
  \<open>Run\<close>.
\<close>

datatype QuiRes = Quiescent | QuiAborted | QuiTimeout

definition dm_Open :: "DataMover \<Rightarrow> XactTCB \<Rightarrow> XactTCB" where
  "dm_Open d r = emit [EvDmOpen] (r\<lparr>dm := Some (d\<lparr>isOpen := True\<rparr>)\<rparr>)"

definition dm_Close :: "error option \<Rightarrow> XactTCB \<Rightarrow> XactTCB" where
  "dm_Close er r = emit [EvDmClose er] (r\<lparr>dm := map_option (\<lambda>d. d\<lparr>isOpen := False\<rparr>) (dm r)\<rparr>)"

definition dm_UnregRecv :: "XactTCB \<Rightarrow> XactTCB" where
  "dm_UnregRecv r = emit [EvUnregRecv] (r\<lparr>dm := map_option (\<lambda>d. d\<lparr>registered := False\<rparr>) (dm r)\<rparr>)"

text \<open>
  \<open>Run\<close>: \<open>steps\<close> is what happens while the jogger runs, \<open>q\<close> the outcome
  of the quiescence wait, \<open>rcvs\<close> the receive callbacks that run during that wait.
\<close>

definition Run :: "bool \<Rightarrow> step list \<Rightarrow> QuiRes \<Rightarrow> recv_call list \<Rightarrow> XactTCB \<times> cpObjPool
    \<Rightarrow> panic + (XactTCB \<times> cpObjPool)" where
  "Run dbg steps q rcvs s =
     (case dm (fst s) of
        None \<Rightarrow> Inl NilDeref
      | Some d \<Rightarrow>
          (case jog dbg steps (dm_Open d (fst s), snd s) of
             Inl pn \<Rightarrow> Inl pn
           | Inr (er, r2, pool2) \<Rightarrow>
               (let r3 = emit [EvBcast doneSendingOpcode] r2
                in case recv_all dbg rcvs r3 of
                     Inl pn \<Rightarrow> Inl pn
                   | Inr r4 \<Rightarrow>
                       (let er1 = (if er = None then err r4 else er);
                            er2 = (if er1 = None then
                                     (if q = QuiAborted then
                                        Some (NewErrAborted (Name r4) [] None)
                                      else if q = QuiTimeout then
                                        Some (ErrQuiesceTimeout (Name r4))
                                      else None)
                                   else er1)
                        in Inr (Finish er2 (dm_UnregRecv (dm_Close er2 r4)), pool2)))))"

section \<open>Vocabulary of the properties, and concrete inputs\<close>

text \<open>
  A record is delivered when the transport reports no error or a clean end of
  stream; a done marker is a delivered record with the done-sending opcode.
\<close>

definition delivered :: "recv_call \<Rightarrow> bool" where
  "delivered c = (case terr c of None \<Rightarrow> True | Some te \<Rightarrow> IsEOF te)"

definition done_marker :: "recv_call \<Rightarrow> bool" where
  "done_marker c = (delivered c \<and> Opcode (hdr c) = doneSendingOpcode)"

text \<open>A copy of bucket A into bucket B, used to instantiate the theorems.\<close>

definition ex_bckA :: Bck where
  "ex_bckA = \<lparr>bname = ''A'', provider = ''ais'', bid = 1, backend = None\<rparr>"

definition ex_bckB :: Bck where
  "ex_bckB = \<lparr>bname = ''B'', provider = ''ais'', bid = 2, backend = None\<rparr>"

definition ex_args :: TCBArgs where
  "ex_args = \<lparr>Phase = ActBegin, BckFrom = ex_bckA, BckTo = ex_bckB,
     Msg = \<lparr>ToName = (\<lambda>n. n), DryRun = False\<rparr>, DP = None\<rparr>"

definition ex_store :: args_store where
  "ex_store = [0 \<mapsto> ex_args]"

definition ex_factory :: tcbFactory where
  "ex_factory = \<lparr>uuid = ''u1'', xact = None, kind = ''copy-bck'', phase = ActBegin, args = 0\<rparr>"

definition ex_done :: recv_call where
  "ex_done = \<lparr>hdr = \<lparr>Opcode = doneSendingOpcode, h_ObjName = [], h_Bck = ex_bckB\<rparr>,
     payload = [], terr = None, lom_init = None, put_result = None\<rparr>"

definition ex_xact :: XactTCB where
  "ex_xact = (newXactTCB ex_factory ex_args)
     \<lparr>dm := Some \<lparr>trname = ''transcpy_u1'', isOpen = False, registered = True\<rparr>,
      refc := 2\<rparr>"

definition ex_broken :: recv_call where
  "ex_broken = ex_done\<lparr>terr := Some (ErrOther ''connection reset'')\<rparr>"

text \<open>Objects of the walk, and the parameters \<open>copyObject\<close> passes for one.\<close>

definition ex_visit :: "64 word \<Rightarrow> visit" where
  "ex_visit n = \<lparr>v_lom = \<lparr>ObjName = ''obj'', SizeBytes = n\<rparr>, v_buf = [],
     copy_result = (n, None), cap_status = None\<rparr>"

definition params_of :: "visit \<Rightarrow> XactTCB \<Rightarrow> CopyObjectParams \<Rightarrow> CopyObjectParams" where
  "params_of v r a = a\<lparr>p_BckTo := Some (BckTo (xargs r)),
       p_ObjNameTo := ToName (Msg (xargs r)) (ObjName (v_lom v)),
       p_Buf := Some (v_buf v),
       p_DM := map_option trname (dm r),
       p_DP := DP (xargs r),
       p_DryRun := DryRun (Msg (xargs r))\<rparr>"

definition ex_visit_unknown :: visit where
  "ex_visit_unknown = (ex_visit 30)\<lparr>copy_result := (ContentLengthUnknown, None)\<rparr>"

definition ex_visit_oos :: visit where
  "ex_visit_oos = (ex_visit 10)\<lparr>copy_result := (0, Some (ErrOOS ''mp1''))\<rparr>"

definition ex_visit_failed :: visit where
  "ex_visit_failed = (ex_visit 10)\<lparr>copy_result := (0, Some (ErrOther ''checksum''))\<rparr>"

definition ex_visit_full :: visit where
  "ex_visit_full = (ex_visit 10)\<lparr>cap_status := Some (ErrOOS ''high watermark'')\<rparr>"

text \<open>
  Admission requests that meet the running job \<open>ex_running\<close>, which is in its
  \<open>begin\<close> phase: the same job's \<open>begin\<close> once more, for the same bucket pair, and a
  request of another job.
\<close>

definition ex_store_again :: args_store where
  "ex_store_again = [0 \<mapsto> ex_args, 1 \<mapsto> ex_args]"

definition ex_running :: tcbFactory where
  "ex_running = ex_factory\<lparr>xact := Some ex_xact\<rparr>"

definition ex_begin_again :: tcbFactory where
  "ex_begin_again = \<lparr>uuid = ''u1'', xact = None, kind = ''copy-bck'', phase = ActBegin, args = 1\<rparr>"

definition ex_other_id :: tcbFactory where
  "ex_other_id = \<lparr>uuid = ''u2'', xact = None, kind = ''copy-bck'', phase = ActBegin, args = 1\<rparr>"

text \<open>
  The size \<open>copyObject\<close> adds to the byte counter for an object whose copy
  succeeds, and the most a walk can add to the two counters: one object and that
  size for each object of the walk.
\<close>

definition counted :: "visit \<Rightarrow> 64 word" where
  "counted v = (if fst (copy_result v) = ContentLengthUnknown then SizeBytes (v_lom v)
                else fst (copy_result v))"

fun walk_objs :: "step list \<Rightarrow> int" where
  "walk_objs [] = 0"
| "walk_objs (Visit v # rest) = 1 + walk_objs rest"
| "walk_objs (Receive c # rest) = walk_objs rest"

fun walk_bytes :: "step list \<Rightarrow> int" where
  "walk_bytes [] = 0"
| "walk_bytes (Visit v # rest) = sint (counted v) + walk_bytes rest"
| "walk_bytes (Receive c # rest) = walk_bytes rest"






definition ex_stale :: CopyObjectParams where
  "ex_stale = params_of ex_visit_failed ex_xact cpObj0"

text \<open>
  Classifiers of the calls, the terminal error \<open>Run\<close> computes from the error of
  the walk, the outcome of the wait and the error slot, and the two readings of a
  result of \<open>Run\<close> that the examples use.
\<close>

fun is_copy :: "event \<Rightarrow> bool" where
  "is_copy (EvCopyObject _ _) = True"
| "is_copy _ = False"

fun is_bcast :: "event \<Rightarrow> bool" where
  "is_bcast (EvBcast _) = True"
| "is_bcast _ = False"

definition terminal_error :: "panic + (XactTCB \<times> cpObjPool) \<Rightarrow> error option option" where
  "terminal_error res = (case res of Inl _ \<Rightarrow> None | Inr s \<Rightarrow> fin (fst s))"

definition stored_error :: "panic + (XactTCB \<times> cpObjPool) \<Rightarrow> error option" where
  "stored_error res = (case res of Inl _ \<Rightarrow> None | Inr s \<Rightarrow> err (fst s))"

definition ex_data_failing :: recv_call where
  "ex_data_failing = \<lparr>hdr = \<lparr>Opcode = 0, h_ObjName = ''o1'', h_Bck = ex_bckB\<rparr>,
     payload = [1, 2, 3], terr = None, lom_init = None,
     put_result = Some (ErrOther ''disk'')\<rparr>"

definition final_error :: "error option \<Rightarrow> QuiRes \<Rightarrow> XactTCB \<Rightarrow> error option" where
  "final_error perr q r4 =
     (case perr of
        Some e \<Rightarrow> Some e
      | None \<Rightarrow>
          (case err r4 of
             Some e \<Rightarrow> Some e
           | None \<Rightarrow>
               (case q of
                  Quiescent \<Rightarrow> None
                | QuiAborted \<Rightarrow> Some (ErrAborted (Name r4) [] None)
                | QuiTimeout \<Rightarrow> Some (ErrQuiesceTimeout (Name r4)))))"

section \<open>Properties\<close>

lemma emit_fields [simp]:
  "refc (emit evs r) = refc r" "err (emit evs r) = err r" "objs (emit evs r) = objs r"
  "bytes (emit evs r) = bytes r" "fin (emit evs r) = fin r" "dm (emit evs r) = dm r"
  "xargs (emit evs r) = xargs r" "xname (emit evs r) = xname r"
  "events (emit evs r) = events r @ evs"
  by (simp_all add: emit_def)

subsection \<open>Machine arithmetic\<close>

lemma sint32_of_int:
  "- (2 ^ 31) \<le> k \<Longrightarrow> k < 2 ^ 31 \<Longrightarrow> sint (word_of_int k :: 32 word) = k"
  by (simp add: sint_sbintrunc' signed_take_bit_int_eq_self)

lemma sint32_dec: "- (2 ^ 31) < sint (w :: 32 word) \<Longrightarrow> sint (w - 1) = sint w - 1"
proof -
  assume a: "- (2 ^ 31) < sint w"
  have "sint w < 2 ^ 31" using sint_lt [of w] by simp
  with a show ?thesis
    by (simp add: sint_word_diff signed_take_bit_int_eq_self)
qed

lemma sint64_add:
  "- (2 ^ 63) \<le> sint (a :: 64 word) + sint b \<Longrightarrow> sint a + sint b < 2 ^ 63 \<Longrightarrow>
   sint (a + b) = sint a + sint b"
  by (simp add: sint_word_add signed_take_bit_int_eq_self)

subsection \<open>The peer-ack counter\<close>

lemma recv_done_marker:
  assumes "done_marker c"
  shows "recv dbg c r =
    (debug_Assert dbg (0 \<le> sint (refc r - 1)), emit [EvFreeRecv] (r\<lparr>refc := refc r - 1\<rparr>))"
  using assms
  by (auto simp: recv_def done_marker_def delivered_def Let_def split: option.splits)

lemma recv_all_done_markers:
  "\<forall>c\<in>set cs. done_marker c \<Longrightarrow> int (length cs) \<le> sint (refc r) \<Longrightarrow>
   \<exists>r'. recv_all dbg cs r = Inr r' \<and> sint (refc r') = sint (refc r) - int (length cs)"
proof (induction cs arbitrary: r)
  case Nil
  then show ?case by simp
next
  case (Cons c cs)
  let ?r1 = "emit [EvFreeRecv] (r\<lparr>refc := refc r - 1\<rparr>)"
  from Cons.prems have pos: "0 < sint (refc r)" by simp
  then have dec: "sint (refc r - 1) = sint (refc r) - 1"
    by (intro sint32_dec) simp
  from Cons.prems have c: "done_marker c" by simp
  have step: "recv dbg c r = (None, ?r1)"
    using pos dec by (simp add: recv_done_marker [OF c] debug_Assert_def)
  have "int (length cs) \<le> sint (refc ?r1)"
    using Cons.prems dec by simp
  with Cons.IH [of ?r1] Cons.prems obtain r' where
    "recv_all dbg cs ?r1 = Inr r'" "sint (refc r') = sint (refc ?r1) - int (length cs)"
    by auto
  with step dec show ?case by simp
qed

lemma Start_refc:
  assumes "Start h slab_err N newdm_err reg_err e = Inr (er, e')"
  shows "\<exists>x. xact e' = Some x \<and> refc x = word_of_int (N - 1)"
  using assms
  by (auto simp: Start_def newDM_def Let_def split: option.splits)

text \<open>
  Claim C2. In a cluster of \<open>N\<close> targets (\<open>1 \<le> N\<close>, and \<open>N - 1\<close> within
  the range of \<open>int32\<close>) \<open>Start\<close> leaves the job with a peer-ack counter of
  \<open>N - 1\<close>. Handling \<open>k \<le> N - 1\<close> done markers, in a debug build or not, raises
  no assertion and leaves the counter at \<open>N - 1 - k\<close>, which is not negative and
  is zero exactly when \<open>k = N - 1\<close>. As the bound holds for every list of at most
  \<open>N - 1\<close> markers, it holds after each marker of such a list.
\<close>

theorem refc_counts_done_markers:
  assumes "1 \<le> N" and "N \<le> 2 ^ 31"
    and "Start h slab_err N newdm_err reg_err e = Inr (er, e')"
    and "\<forall>c\<in>set cs. done_marker c"
    and "int (length cs) \<le> N - 1"
  shows "\<exists>x x'. xact e' = Some x \<and> sint (refc x) = N - 1 \<and>
           recv_all dbg cs x = Inr x' \<and>
           sint (refc x') = N - 1 - int (length cs) \<and>
           0 \<le> sint (refc x') \<and>
           (refc x' = 0) = (int (length cs) = N - 1)"
proof -
  from Start_refc [OF assms(3)] obtain x where
    x: "xact e' = Some x" "refc x = word_of_int (N - 1)" by blast
  have sx: "sint (refc x) = N - 1"
    unfolding x(2) by (rule sint32_of_int) (use assms(1,2) in simp_all)
  from recv_all_done_markers [OF assms(4), of x dbg] assms(5) sx obtain x' where
    x': "recv_all dbg cs x = Inr x'" "sint (refc x') = N - 1 - int (length cs)"
    by auto
  have z: "(refc x' = 0) = (sint (refc x') = 0)"
    by (simp add: signed_eq_0_iff)
  from x sx x' assms(5) z show ?thesis by auto
qed

theorem refc_counts_done_markers_witness:
  "\<exists>er e' x x'. Start ex_store None 3 None None ex_factory = Inr (er, e') \<and>
     xact e' = Some x \<and> sint (refc x) = 2 \<and>
     recv_all True [ex_done, ex_done] x = Inr x' \<and> refc x' = 0"
proof -
  obtain e' where s: "Start ex_store None 3 None None ex_factory = Inr (None, e')"
    by (simp add: Start_def ex_store_def ex_factory_def newDM_def Let_def)
  have m: "\<forall>c\<in>set [ex_done, ex_done]. done_marker c"
    by (simp add: done_marker_def delivered_def ex_done_def)
  from refc_counts_done_markers [OF _ _ s m, of True] s show ?thesis
    by fastforce
qed

subsection \<open>The receive handler\<close>

lemma ErrValue_Store_fields [simp]:
  "refc (ErrValue_Store e r) = refc r" "objs (ErrValue_Store e r) = objs r"
  "bytes (ErrValue_Store e r) = bytes r" "fin (ErrValue_Store e r) = fin r"
  "dm (ErrValue_Store e r) = dm r" "xargs (ErrValue_Store e r) = xargs r"
  "xname (ErrValue_Store e r) = xname r" "events (ErrValue_Store e r) = events r"
  "err (ErrValue_Store e r) = (case err r of None \<Rightarrow> Some e | Some e0 \<Rightarrow> Some e0)"
  by (simp_all add: ErrValue_Store_def split: option.splits)

lemma recv_transport_error:
  "terr c = Some te \<Longrightarrow> \<not> IsEOF te \<Longrightarrow>
   recv dbg c r = (None, emit [EvLogError te, EvFreeRecv] r)"
  by (simp add: recv_def)

lemma delivered_iff:
  "delivered c = (\<not> (case terr c of None \<Rightarrow> False | Some te \<Rightarrow> \<not> IsEOF te))"
  by (simp add: delivered_def split: option.splits)



lemma recv_init_failed:
  "delivered c \<Longrightarrow> Opcode (hdr c) \<noteq> doneSendingOpcode \<Longrightarrow>
   debug_Assert dbg (Opcode (hdr c) = 0) = None \<Longrightarrow> err r = None \<Longrightarrow>
   lom_init c = Some e \<Longrightarrow>
   recv dbg c r = (None, emit [EvLogError e, EvDrainReader, EvFreeRecv] (ErrValue_Store e r))"
  by (simp add: recv_def delivered_iff)

lemma recv_put_failed:
  "delivered c \<Longrightarrow> Opcode (hdr c) \<noteq> doneSendingOpcode \<Longrightarrow>
   debug_Assert dbg (Opcode (hdr c) = 0) = None \<Longrightarrow> err r = None \<Longrightarrow>
   lom_init c = None \<Longrightarrow> put_result c = Some e \<Longrightarrow>
   recv dbg c r = (None, emit [EvPutObject (h_ObjName (hdr c)), EvLogError e,
                               EvDrainReader, EvFreeRecv] (ErrValue_Store e r))"
  by (simp add: recv_def delivered_iff)


text \<open>
  Claim C10. Handling a done marker changes the job state in one field only: the
  peer-ack counter is one less. The object counter, the byte counter, the error
  slot and every other field are as before, and the only call made is the release
  of the receive buffer: nothing is persisted. Handling a record with a transport
  error other than a clean end of stream changes no field of the job: the error is
  logged and the buffer released.
\<close>

theorem recv_frame:
  "(done_marker c \<longrightarrow>
      snd (recv dbg c r) = r\<lparr>refc := refc r - 1, events := events r @ [EvFreeRecv]\<rparr>) \<and>
   (\<forall>te. terr c = Some te \<and> \<not> IsEOF te \<longrightarrow>
      recv dbg c r = (None, r\<lparr>events := events r @ [EvLogError te, EvFreeRecv]\<rparr>))"
  by (simp add: recv_done_marker recv_transport_error emit_def)

theorem recv_frame_witness:
  "done_marker ex_done \<and>
   snd (recv True ex_done ex_xact) = ex_xact\<lparr>refc := 1, events := [EvFreeRecv]\<rparr> \<and>
   terr ex_broken = Some (ErrOther ''connection reset'') \<and>
   \<not> IsEOF (ErrOther ''connection reset'') \<and>
   recv True ex_broken ex_xact =
     (None, ex_xact\<lparr>events := [EvLogError (ErrOther ''connection reset''), EvFreeRecv]\<rparr>)"
proof -
  have m: "done_marker ex_done"
    by (simp add: done_marker_def delivered_def ex_done_def)
  have b: "terr ex_broken = Some (ErrOther ''connection reset'')"
    by (simp add: ex_broken_def)
  have e: "events ex_xact = []" "refc ex_xact = 2"
    by (simp_all add: ex_xact_def newXactTCB_def)
  from recv_frame [of ex_done True ex_xact] recv_frame [of ex_broken True ex_xact] m b e
  show ?thesis by simp
qed




subsection \<open>The per-object copy\<close>

lemma ObjectsInc_fields [simp]:
  "objs (ObjectsInc r) = objs r + 1" "bytes (ObjectsInc r) = bytes r"
  "refc (ObjectsInc r) = refc r" "err (ObjectsInc r) = err r" "fin (ObjectsInc r) = fin r"
  "dm (ObjectsInc r) = dm r" "xargs (ObjectsInc r) = xargs r"
  "xname (ObjectsInc r) = xname r" "events (ObjectsInc r) = events r"
  by (simp_all add: ObjectsInc_def)

lemma BytesAdd_fields [simp]:
  "objs (BytesAdd n r) = objs r" "bytes (BytesAdd n r) = bytes r + n"
  "refc (BytesAdd n r) = refc r" "err (BytesAdd n r) = err r" "fin (BytesAdd n r) = fin r"
  "dm (BytesAdd n r) = dm r" "xargs (BytesAdd n r) = xargs r"
  "xname (BytesAdd n r) = xname r" "events (BytesAdd n r) = events r"
  by (simp_all add: BytesAdd_def)

lemma copyObject_failed:
  assumes "copy_result v = (sz, Some e)"
  shows "copyObject v (r, pool) =
    (Some (if IsErrOOS e then NewErrAborted (Name r) ''copy-obj'' (Some e) else e),
     emit [EvCopyObject (ObjName (v_lom v)) (params_of v r (fst (allocCpObjParams pool)))] r,
     cpObj0 # snd (allocCpObjParams pool))"
  using assms
  by (simp add: copyObject_def Let_def params_of_def freeCpObjParams_def split: prod.splits)

lemma copyObject_copied:
  assumes "copy_result v = (sz, None)"
  shows "copyObject v (r, pool) =
    ((case cap_status v of
        Some ce \<Rightarrow> Some (NewErrAborted (Name r) ''copy-obj'' (Some ce))
      | None \<Rightarrow> None),
     BytesAdd (if sz = ContentLengthUnknown then SizeBytes (v_lom v) else sz)
       (ObjectsInc
         (emit [EvCopyObject (ObjName (v_lom v)) (params_of v r (fst (allocCpObjParams pool)))] r)),
     cpObj0 # snd (allocCpObjParams pool))"
  using assms
  by (simp add: copyObject_def Let_def params_of_def freeCpObjParams_def split: prod.splits)

text \<open>
  Claim C6. After a successful copy the capacity status is consulted, and its error
  is returned wrapped in an aborted error; an out-of-space error of the copy itself
  is wrapped in the same way; any other error of the copy is returned as it is,
  whatever the capacity status. Whichever error \<open>copyObject\<close> returns ends the
  walk: the jogger returns it and visits no further object.
\<close>

theorem copyObject_error_classes:
  assumes "copy_result v = (sz, cerr)"
  shows "(\<forall>ce. cerr = None \<and> cap_status v = Some ce \<longrightarrow>
            fst (copyObject v (r, pool)) = Some (ErrAborted (Name r) ''copy-obj'' (Some ce))) \<and>
         (\<forall>e. cerr = Some e \<and> IsErrOOS e \<longrightarrow>
            fst (copyObject v (r, pool)) = Some (ErrAborted (Name r) ''copy-obj'' (Some e))) \<and>
         (\<forall>e. cerr = Some e \<and> \<not> IsErrOOS e \<longrightarrow> fst (copyObject v (r, pool)) = Some e) \<and>
         (cerr = None \<and> cap_status v = None \<longrightarrow> fst (copyObject v (r, pool)) = None) \<and>
         (\<forall>e. fst (copyObject v (r, pool)) = Some e \<longrightarrow>
            jog dbg (Visit v # rest) (r, pool) = Inr (copyObject v (r, pool)))"
proof -
  have walk: "jog dbg (Visit v # rest) (r, pool) = Inr (copyObject v (r, pool))"
    if "fst (copyObject v (r, pool)) = Some e" for e
    using that by (cases "copyObject v (r, pool)") simp
  show ?thesis
  proof (cases cerr)
    case None
    with assms walk show ?thesis
      by (simp add: copyObject_copied NewErrAborted_def)
  next
    case (Some e)
    with assms walk show ?thesis
      by (simp add: copyObject_failed NewErrAborted_def)
  qed
qed

theorem copyObject_error_classes_witness:
  "fst (copyObject ex_visit_full (ex_xact, [])) =
     Some (ErrAborted (Name ex_xact) ''copy-obj'' (Some (ErrOOS ''high watermark''))) \<and>
   fst (copyObject ex_visit_oos (ex_xact, [])) =
     Some (ErrAborted (Name ex_xact) ''copy-obj'' (Some (ErrOOS ''mp1''))) \<and>
   fst (copyObject ex_visit_failed (ex_xact, [])) = Some (ErrOther ''checksum'') \<and>
   fst (copyObject (ex_visit 10) (ex_xact, [])) = None \<and>
   jog False [Visit ex_visit_failed, Visit (ex_visit 10)] (ex_xact, []) =
     Inr (copyObject ex_visit_failed (ex_xact, []))"
proof -
  have k: "copy_result ex_visit_full = (10, None)"
    "cap_status ex_visit_full = Some (ErrOOS ''high watermark'')"
    "copy_result ex_visit_oos = (0, Some (ErrOOS ''mp1''))"
    "copy_result ex_visit_failed = (0, Some (ErrOther ''checksum''))"
    "copy_result (ex_visit 10) = (10, None)" "cap_status (ex_visit 10) = None"
    by (simp_all add: ex_visit_full_def ex_visit_oos_def ex_visit_failed_def ex_visit_def)
  from copyObject_error_classes [OF k(1), of ex_xact "[]"]
    copyObject_error_classes [OF k(3), of ex_xact "[]"]
    copyObject_error_classes [OF k(4), of ex_xact "[]" False "[Visit (ex_visit 10)]"]
    copyObject_error_classes [OF k(5), of ex_xact "[]"] k(2,6)
  show ?thesis by simp
qed

lemma allocCpObjParams_inv:
  "\<forall>a\<in>set pool. a = cpObj0 \<Longrightarrow>
   fst (allocCpObjParams pool) = cpObj0 \<and> (\<forall>a\<in>set (snd (allocCpObjParams pool)). a = cpObj0)"
  by (cases pool) (simp_all add: allocCpObjParams_def)

lemma copyObject_pool:
  "snd (snd (copyObject v (r, pool))) = cpObj0 # snd (allocCpObjParams pool)"
  by (cases "copy_result v"; cases "snd (copy_result v)")
    (simp_all add: copyObject_copied copyObject_failed)

lemma jog_pool_inv:
  "\<forall>a\<in>set (snd s). a = cpObj0 \<Longrightarrow> jog dbg steps s = Inr (er, r', pool') \<Longrightarrow>
   \<forall>a\<in>set pool'. a = cpObj0"
proof (induction steps arbitrary: s)
  case Nil
  then show ?case by auto
next
  case (Cons st rest)
  obtain r pool where s: "s = (r, pool)" by (cases s)
  show ?case
  proof (cases st)
    case (Visit v)
    obtain e1 r1 p1 where c: "copyObject v (r, pool) = (e1, r1, p1)" by (metis prod_cases3)
    have p1: "\<forall>a\<in>set p1. a = cpObj0"
      using copyObject_pool [of v r pool] allocCpObjParams_inv [of pool] Cons.prems(1) c s
      by simp
    show ?thesis
    proof (cases e1)
      case None
      with Cons.IH [of "(r1, p1)"] c p1 Cons.prems(2) Visit s show ?thesis
        by simp
    next
      case (Some e)
      with c Cons.prems(2) p1 Visit s show ?thesis by auto
    qed
  next
    case (Receive c)
    obtain pn r1 where rc: "recv dbg c r = (pn, r1)" by (cases "recv dbg c r")
    with Cons.prems(2) Receive s have "pn = None" and "jog dbg rest (r1, pool) = Inr (er, r', pool')"
      by (auto split: option.splits)
    with Cons.IH [of "(r1, pool)"] Cons.prems(1) s show ?thesis by simp
  qed
qed

text \<open>
  Claim C9. \<open>allocCpObjParams\<close> takes the struct last put back out of the pool
  and hands out that very struct, whatever it holds, or a fresh zero struct when
  the pool is empty. \<open>freeCpObjParams\<close> puts back the zero value whatever the
  struct held, so the next borrower gets the zero value. \<open>copyObject\<close> borrows one
  struct and puts one back on every outcome: a pool that held a struct has as many
  afterwards, with the zero value in the place of the one borrowed. Hence every
  pooled struct is \<open>cpObj0\<close>: the empty pool satisfies this, and
  \<open>copyObject\<close> and a whole walk keep it. Under it the struct a copy borrows is
  the zero value, and the parameters handed to the copy operation are the zero value
  with this object's six fields set.
\<close>

theorem cpObjParams_pool_reset:
  assumes "\<forall>a\<in>set pool. a = cpObj0"
  shows "(\<forall>a rest. allocCpObjParams (a # rest) = (a, rest)) \<and>
         allocCpObjParams [] = (cpObj0, []) \<and>
         (\<forall>b p. freeCpObjParams b p = cpObj0 # p) \<and>
         (\<forall>b p. allocCpObjParams (freeCpObjParams b p) = (cpObj0, p)) \<and>
         (\<forall>a rest. snd (snd (copyObject v (r, a # rest))) = cpObj0 # rest \<and>
            events (fst (snd (copyObject v (r, a # rest)))) =
              events r @ [EvCopyObject (ObjName (v_lom v)) (params_of v r a)]) \<and>
         snd (snd (copyObject v (r, []))) = [cpObj0] \<and>
         fst (allocCpObjParams pool) = cpObj0 \<and>
         snd (allocCpObjParams pool) = tl pool \<and>
         snd (snd (copyObject v (r, pool))) = cpObj0 # tl pool \<and>
         set (snd (snd (copyObject v (r, pool)))) = {cpObj0} \<and>
         events (fst (snd (copyObject v (r, pool)))) =
           events r @ [EvCopyObject (ObjName (v_lom v)) (params_of v r cpObj0)] \<and>
         (\<forall>er r' pool'. jog dbg steps (r, pool) = Inr (er, r', pool') \<longrightarrow>
            (\<forall>a\<in>set pool'. a = cpObj0))"
proof -
  note a = allocCpObjParams_inv [OF assms]
  have al: "allocCpObjParams (b # rest) = (b, rest)" "allocCpObjParams [] = (cpObj0, [])"
    for b rest
    by (simp_all add: allocCpObjParams_def)
  have fr: "freeCpObjParams b p = cpObj0 # p" for b p
    by (simp add: freeCpObjParams_def)
  have tl: "snd (allocCpObjParams pool) = tl pool"
    by (cases pool) (simp_all add: al)
  have ev: "events (fst (snd (copyObject v (r, p)))) =
      events r @ [EvCopyObject (ObjName (v_lom v)) (params_of v r (fst (allocCpObjParams p)))]"
    for p
    by (cases "copy_result v"; cases "snd (copy_result v)")
      (simp_all add: copyObject_copied copyObject_failed)
  have c: "set (snd (snd (copyObject v (r, pool)))) = {cpObj0}"
    using a by (auto simp: copyObject_pool)
  have j: "\<forall>a\<in>set pool'. a = cpObj0" if "jog dbg steps (r, pool) = Inr (er, r', pool')"
    for er r' pool'
    using jog_pool_inv [of "(r, pool)" dbg steps er r' pool'] assms that by simp
  from a c j show ?thesis
    by (simp add: al fr tl ev copyObject_pool)
qed

theorem cpObjParams_pool_reset_witness:
  "set [cpObj0, cpObj0] = {cpObj0} \<and>
   allocCpObjParams [cpObj0, cpObj0] = (cpObj0, [cpObj0]) \<and>
   snd (snd (copyObject ex_visit_failed (ex_xact, [cpObj0, cpObj0]))) = [cpObj0, cpObj0] \<and>
   snd (snd (copyObject (ex_visit 10) (ex_xact, [cpObj0, cpObj0]))) = [cpObj0, cpObj0] \<and>
   ex_stale \<noteq> cpObj0 \<and>
   allocCpObjParams [ex_stale, cpObj0] = (ex_stale, [cpObj0]) \<and>
   allocCpObjParams (freeCpObjParams ex_stale [cpObj0]) = (cpObj0, [cpObj0])"
proof -
  have i: "\<forall>a\<in>set [cpObj0, cpObj0]. a = cpObj0" by simp
  have s: "ex_stale \<noteq> cpObj0"
    by (simp add: ex_stale_def params_of_def cpObj0_def)
  from cpObjParams_pool_reset [OF i, of ex_visit_failed ex_xact]
    cpObjParams_pool_reset [OF i, of "ex_visit 10" ex_xact] s
  show ?thesis by simp
qed

subsection \<open>Admission while a job is running\<close>

text \<open>
  Where the two assertions of \<open>WhenPrevIsRunning\<close> hold, it does what is asked
  of it: a request of another job is rejected with a conflict error that names the
  running job and the new one, and the store is unchanged; the running job's own
  \<open>commit\<close> for the same source bucket is accepted, the phase of the running
  factory's arguments is set to \<open>commit\<close> in place, and the caller is told to use
  the running job.
\<close>

lemma WhenPrevIsRunning_asserted:
  assumes "h (args prev) = Some pa" and "h (args e) = Some ea"
  shows "uuid e \<noteq> uuid prev \<Longrightarrow>
           WhenPrevIsRunning dbg h e prev =
             Inr (Wpr0, Some (ErrConflict (Get_String prev) (Str e)), h)"
    and "uuid e = uuid prev \<Longrightarrow> Bck_Equal (BckFrom pa) (BckFrom ea) True True \<Longrightarrow>
         phase prev = ActBegin \<Longrightarrow> phase e = ActCommit \<Longrightarrow>
           WhenPrevIsRunning dbg h e prev =
             Inr (WprUse, None, h(args prev \<mapsto> pa\<lparr>Phase := ActCommit\<rparr>))"
  using assms by (simp_all add: WhenPrevIsRunning_def debug_Assert_def Let_def)

text \<open>
  Claim C1. The claim asks that a request with the running job's ID be rejected
  with a conflict error when the phases are not \<open>begin\<close> then \<open>commit\<close>, and
  the assertion of the source states the same condition. The code does not reject:
  for the running job's \<open>begin\<close> sent once more, for the same bucket pair, it
  answers \<open>WprUse\<close> without an error and moves the phase of the running
  factory's arguments to \<open>commit\<close> where assertions are off, and panics where
  they are on. A request of another job, by contrast, gets the conflict error.
\<close>

theorem WhenPrevIsRunning_repeated_begin:
  "uuid ex_begin_again = uuid ex_running \<and>
   ex_store_again (args ex_running) = Some ex_args \<and>
   ex_store_again (args ex_begin_again) = Some ex_args \<and>
   Bck_Equal (BckFrom ex_args) (BckFrom ex_args) True True \<and>
   phase ex_running = ActBegin \<and> phase ex_begin_again = ActBegin \<and> ActBegin \<noteq> ActCommit \<and>
   WhenPrevIsRunning False ex_store_again ex_begin_again ex_running =
     Inr (WprUse, None, ex_store_again(0 \<mapsto> ex_args\<lparr>Phase := ActCommit\<rparr>)) \<and>
   WhenPrevIsRunning True ex_store_again ex_begin_again ex_running = Inl AssertFailed \<and>
   WhenPrevIsRunning False ex_store_again ex_other_id ex_running =
     Inr (Wpr0, Some (ErrConflict (Name ex_xact) ''copy-bck[u2]''), ex_store_again)"
  by (simp add: WhenPrevIsRunning_def ex_store_again_def ex_running_def ex_begin_again_def
      ex_other_id_def ex_factory_def Bck_Equal_def debug_Assert_def Let_def ActBegin_def
      ActCommit_def Get_String_def Str_def)

subsection \<open>Run: the walk, the done marker, the wait, the terminal error\<close>

text \<open>What a call of the handler leaves alone, and what it may add to the record of calls.\<close>

lemma recv_keeps:
  "dm (snd (recv dbg c r)) = dm r" "objs (snd (recv dbg c r)) = objs r"
  "bytes (snd (recv dbg c r)) = bytes r" "fin (snd (recv dbg c r)) = fin r"
  "xargs (snd (recv dbg c r)) = xargs r" "xname (snd (recv dbg c r)) = xname r"
  by (simp_all add: recv_def Let_def split: option.splits)

lemma recv_err_latched: "err r = Some e \<Longrightarrow> err (snd (recv dbg c r)) = Some e"
  by (simp add: recv_def Let_def split: option.splits)

lemma recv_events:
  "\<exists>evs. events (snd (recv dbg c r)) = events r @ evs \<and>
     (\<forall>ev\<in>set evs. \<not> is_bcast ev \<and> \<not> is_copy ev)"
  by (simp add: recv_def Let_def split: option.splits)

lemma recv_no_panic: "fst (recv False c r) = None"
  by (simp add: recv_def debug_Assert_def Let_def split: option.splits)

lemma recv_all_keeps:
  "recv_all dbg cs r = Inr r' \<Longrightarrow>
   dm r' = dm r \<and> objs r' = objs r \<and> bytes r' = bytes r \<and> fin r' = fin r \<and>
   xargs r' = xargs r \<and> xname r' = xname r \<and> (\<forall>e. err r = Some e \<longrightarrow> err r' = Some e) \<and>
   (\<exists>evs. events r' = events r @ evs \<and> (\<forall>ev\<in>set evs. \<not> is_bcast ev \<and> \<not> is_copy ev))"
proof (induction cs arbitrary: r)
  case Nil
  then show ?case by simp
next
  case (Cons c cs)
  obtain pn r1 where rc: "recv dbg c r = (pn, r1)" by (cases "recv dbg c r")
  with Cons.prems have rest: "recv_all dbg cs r1 = Inr r'"
    by (auto split: option.splits)
  from rc have r1: "r1 = snd (recv dbg c r)" by simp
  from recv_events [of dbg c r] r1 obtain evs1 where
    e1: "events r1 = events r @ evs1" "\<forall>ev\<in>set evs1. \<not> is_bcast ev \<and> \<not> is_copy ev"
    by auto
  from Cons.IH [OF rest] obtain evs2 where
    e2: "events r' = events r1 @ evs2" "\<forall>ev\<in>set evs2. \<not> is_bcast ev \<and> \<not> is_copy ev"
    by auto
  have ev: "\<exists>evs. events r' = events r @ evs \<and> (\<forall>ev\<in>set evs. \<not> is_bcast ev \<and> \<not> is_copy ev)"
    by (rule exI [of _ "evs1 @ evs2"]) (use e1 e2 in auto)
  from Cons.IH [OF rest] r1 ev show ?case
    by (simp add: recv_keeps recv_err_latched)
qed

lemma recv_all_no_panic: "\<exists>r'. recv_all False cs r = Inr r'"
proof (induction cs arbitrary: r)
  case Nil
  show ?case by simp
next
  case (Cons c cs)
  obtain r1 where "recv False c r = (None, r1)"
    using recv_no_panic [of c r] by (cases "recv False c r") simp
  with Cons.IH [of r1] show ?case by simp
qed

lemma copyObject_keeps:
  "dm (fst (snd (copyObject v (r, pool)))) = dm r"
  "err (fst (snd (copyObject v (r, pool)))) = err r"
  "refc (fst (snd (copyObject v (r, pool)))) = refc r"
  "fin (fst (snd (copyObject v (r, pool)))) = fin r"
  "xargs (fst (snd (copyObject v (r, pool)))) = xargs r"
  "xname (fst (snd (copyObject v (r, pool)))) = xname r"
  "\<exists>n p. events (fst (snd (copyObject v (r, pool)))) = events r @ [EvCopyObject n p]"
  by (cases "copy_result v"; cases "snd (copy_result v)";
      simp add: copyObject_copied copyObject_failed)+

lemma jog_keeps:
  "jog dbg steps (r, pool) = Inr (er, r', pool') \<Longrightarrow>
   dm r' = dm r \<and> fin r' = fin r \<and> xargs r' = xargs r \<and> xname r' = xname r \<and>
   (\<forall>e. err r = Some e \<longrightarrow> err r' = Some e) \<and>
   (\<exists>evs. events r' = events r @ evs \<and> (\<forall>ev\<in>set evs. \<not> is_bcast ev))"
proof (induction steps arbitrary: r pool)
  case Nil
  then show ?case by simp
next
  case (Cons st rest)
  show ?case
  proof (cases st)
    case (Visit v)
    obtain e1 r1 p1 where c: "copyObject v (r, pool) = (e1, r1, p1)" by (metis prod_cases3)
    then have r1: "r1 = fst (snd (copyObject v (r, pool)))" by simp
    from copyObject_keeps(7) [of v r pool] r1 obtain n p where
      e1: "events r1 = events r @ [EvCopyObject n p]" by auto
    show ?thesis
    proof (cases e1)
      case None
      with Cons.prems Visit c have rest: "jog dbg rest (r1, p1) = Inr (er, r', pool')"
        by simp
      from Cons.IH [OF rest] obtain evs2 where
        e2: "events r' = events r1 @ evs2" "\<forall>ev\<in>set evs2. \<not> is_bcast ev" by auto
      have ev: "\<exists>evs. events r' = events r @ evs \<and> (\<forall>ev\<in>set evs. \<not> is_bcast ev)"
        by (rule exI [of _ "EvCopyObject n p # evs2"]) (use e1 e2 in auto)
      from Cons.IH [OF rest] ev show ?thesis
        by (simp add: r1 copyObject_keeps)
    next
      case (Some e)
      with Cons.prems Visit c have "r' = r1" by simp
      with e1 show ?thesis
        by (simp add: r1 copyObject_keeps)
    qed
  next
    case (Receive c)
    obtain pn r1 where rc: "recv dbg c r = (pn, r1)" by (cases "recv dbg c r")
    with Cons.prems Receive have rest: "jog dbg rest (r1, pool) = Inr (er, r', pool')"
      by (auto split: option.splits)
    from rc have r1: "r1 = snd (recv dbg c r)" by simp
    from recv_events [of dbg c r] r1 obtain evs1 where
      e1: "events r1 = events r @ evs1" "\<forall>ev\<in>set evs1. \<not> is_bcast ev \<and> \<not> is_copy ev"
      by auto
    from Cons.IH [OF rest] obtain evs2 where
      e2: "events r' = events r1 @ evs2" "\<forall>ev\<in>set evs2. \<not> is_bcast ev" by auto
    have ev: "\<exists>evs. events r' = events r @ evs \<and> (\<forall>ev\<in>set evs. \<not> is_bcast ev)"
      by (rule exI [of _ "evs1 @ evs2"]) (use e1 e2 in auto)
    from Cons.IH [OF rest] ev show ?thesis
      by (simp add: r1 recv_keeps recv_err_latched)
  qed
qed

lemma jog_no_panic: "\<exists>res. jog False steps s = Inr res"
proof (induction steps arbitrary: s)
  case Nil
  show ?case by simp
next
  case (Cons st rest)
  show ?case
  proof (cases st)
    case (Visit v)
    obtain e1 s1 where c: "copyObject v s = (e1, s1)" by (cases "copyObject v s")
    with Cons.IH [of s1] Visit show ?thesis by (cases e1) auto
  next
    case (Receive c)
    obtain r1 where "recv False c (fst s) = (None, r1)"
      using recv_no_panic [of c "fst s"] by (cases "recv False c (fst s)") simp
    with Cons.IH [of "(r1, snd s)"] Receive show ?thesis by simp
  qed
qed

text \<open>The steps of \<open>Run\<close> once the walk and the receives of the wait are given.\<close>

lemma Run_unfold:
  assumes "dm r = Some d"
    and "jog dbg steps (dm_Open d r, pool) = Inr (perr, r2, pool2)"
    and "recv_all dbg rcvs (emit [EvBcast doneSendingOpcode] r2) = Inr r4"
  shows "Run dbg steps q rcvs (r, pool) =
    Inr (Finish (final_error perr q r4)
          (dm_UnregRecv (dm_Close (final_error perr q r4) r4)), pool2)"
  using assms
  by (cases q; cases perr; cases "err r4")
    (simp_all add: Run_def Let_def final_error_def NewErrAborted_def)

lemma Run_cases:
  assumes "Run dbg steps q rcvs (r, pool) = Inr (r', pool')"
  obtains d perr r2 r4 where "dm r = Some d"
    and "jog dbg steps (dm_Open d r, pool) = Inr (perr, r2, pool')"
    and "recv_all dbg rcvs (emit [EvBcast doneSendingOpcode] r2) = Inr r4"
    and "r' = Finish (final_error perr q r4)
          (dm_UnregRecv (dm_Close (final_error perr q r4) r4))"
proof -
  from assms obtain d where d: "dm r = Some d"
    by (cases "dm r") (simp_all add: Run_def)
  from assms d obtain perr r2 p2 where j: "jog dbg steps (dm_Open d r, pool) = Inr (perr, r2, p2)"
    by (cases "jog dbg steps (dm_Open d r, pool)") (auto simp: Run_def)
  from assms d j obtain r4 where
    a: "recv_all dbg rcvs (emit [EvBcast doneSendingOpcode] r2) = Inr r4"
    by (cases "recv_all dbg rcvs (emit [EvBcast doneSendingOpcode] r2)")
      (auto simp: Run_def Let_def)
  from Run_unfold [OF d j a, of q] assms that [OF d _ a] j show thesis
    by simp
qed

lemma closing_fields [simp]:
  "fin (Finish er (dm_UnregRecv (dm_Close er r))) = Some er"
  "err (Finish er (dm_UnregRecv (dm_Close er r))) = err r"
  "objs (Finish er (dm_UnregRecv (dm_Close er r))) = objs r"
  "bytes (Finish er (dm_UnregRecv (dm_Close er r))) = bytes r"
  "dm (Finish er (dm_UnregRecv (dm_Close er r))) =
     map_option (\<lambda>d. d\<lparr>isOpen := False, registered := False\<rparr>) (dm r)"
  "events (Finish er (dm_UnregRecv (dm_Close er r))) =
     events r @ [EvDmClose er, EvUnregRecv, EvFinish er]"
  by (simp_all add: Finish_def dm_UnregRecv_def dm_Close_def emit_def option.map_comp comp_def)

lemma Run_returns:
  assumes "dm r = Some d"
  shows "\<exists>r' pool'. Run False steps q rcvs (r, pool) = Inr (r', pool') \<and> fin r' \<noteq> None"
proof -
  from jog_no_panic [of steps "(dm_Open d r, pool)"] obtain perr r2 pool2 where
    j: "jog False steps (dm_Open d r, pool) = Inr (perr, r2, pool2)"
    by (metis prod_cases3)
  from recv_all_no_panic [of rcvs "emit [EvBcast doneSendingOpcode] r2"] obtain r4 where
    a: "recv_all False rcvs (emit [EvBcast doneSendingOpcode] r2) = Inr r4"
    by blast
  show ?thesis
    by (simp add: Run_unfold [OF assms j a])
qed

lemma Name_cong: "xname a = xname b \<Longrightarrow> xargs a = xargs b \<Longrightarrow> Name a = Name b"
  by (simp add: Name_def)

text \<open>
  Claim C3. When the walk returned no error and no receive error is stored once the
  wait is over, the terminal error follows the outcome of the wait: none when
  quiesced, an aborted error when aborted, the quiesce-timeout error when timed
  out; the three are distinct. In each case \<open>Run\<close> returns: the job is finished
  with that error after the data mover was closed with it and unregistered, in this
  order.
\<close>

theorem Run_quiesce_outcome:
  assumes "dm r = Some d"
    and "jog dbg steps (dm_Open d r, pool) = Inr (None, r2, pool2)"
    and "recv_all dbg rcvs (emit [EvBcast doneSendingOpcode] r2) = Inr r4"
    and "err r4 = None"
  shows "\<exists>r' er. Run dbg steps q rcvs (r, pool) = Inr (r', pool2) \<and>
           er = (case q of
                   Quiescent \<Rightarrow> None
                 | QuiAborted \<Rightarrow> Some (ErrAborted (Name r) [] None)
                 | QuiTimeout \<Rightarrow> Some (ErrQuiesceTimeout (Name r))) \<and>
           (er = None) = (q = Quiescent) \<and>
           (\<exists>e. er = Some e \<and> IsErrAborted e) = (q = QuiAborted) \<and>
           fin r' = Some er \<and>
           dm r' = Some (d\<lparr>isOpen := False, registered := False\<rparr>) \<and>
           events r' = events r4 @ [EvDmClose er, EvUnregRecv, EvFinish er]"
proof -
  from jog_keeps [OF assms(2)] have k2: "dm r2 = Some (d\<lparr>isOpen := True\<rparr>)"
    "xname r2 = xname r" "xargs r2 = xargs r"
    by (simp_all add: dm_Open_def)
  from recv_all_keeps [OF assms(3)] k2 have k4: "dm r4 = Some (d\<lparr>isOpen := True\<rparr>)"
    "xname r4 = xname r" "xargs r4 = xargs r"
    by simp_all
  have n: "Name r4 = Name r" using k4 by (intro Name_cong)
  show ?thesis
    by (cases q) (simp_all add: Run_unfold [OF assms(1-3)] final_error_def assms(4) n k4)
qed

theorem Run_quiesce_outcome_witness:
  "\<exists>r'. Run True [Visit (ex_visit 10)] QuiTimeout [ex_done] (ex_xact, []) = Inr (r', [cpObj0]) \<and>
     fin r' = Some (Some (ErrQuiesceTimeout (Name ex_xact))) \<and>
     dm r' = Some \<lparr>trname = ''transcpy_u1'', isOpen = False, registered = False\<rparr>"
proof -
  have d: "dm ex_xact = Some \<lparr>trname = ''transcpy_u1'', isOpen = False, registered = True\<rparr>"
    by (simp add: ex_xact_def)
  have k: "copy_result (ex_visit 10) = (10, None)" "cap_status (ex_visit 10) = None"
    by (simp_all add: ex_visit_def)
  let ?r0 = "dm_Open \<lparr>trname = ''transcpy_u1'', isOpen = False, registered = True\<rparr> ex_xact"
  obtain r2 where j: "jog True [Visit (ex_visit 10)] (?r0, []) = Inr (None, r2, [cpObj0])"
    and e2: "err r2 = None" and c2: "refc r2 = 2"
    by (simp add: copyObject_copied [OF k(1)] k(2) allocCpObjParams_def dm_Open_def ex_xact_def
        newXactTCB_def)
  have m: "done_marker ex_done"
    by (simp add: done_marker_def delivered_def ex_done_def)
  obtain r4 where a: "recv_all True [ex_done] (emit [EvBcast doneSendingOpcode] r2) = Inr r4"
    and e4: "err r4 = None"
    by (simp add: recv_done_marker [OF m] debug_Assert_def c2 e2)
  from Run_quiesce_outcome [OF d j a e4, of QuiTimeout] show ?thesis
    by auto
qed

text \<open>
  Claim C4, as amended. The terminal error is the error of the walk whenever the
  walk returned one, whatever the error slot holds and whenever it was stored.
  Otherwise it is the receive error in the slot. The slot keeps the first receive
  error stored: a failed resolution or persist stores its error in an empty slot,
  and a slot that holds an error holds the same error after every later call of the
  handler, after the walk, and when \<open>Run\<close> returns.
\<close>

theorem Run_terminal_error:
  assumes "dm r = Some d"
    and "jog dbg steps (dm_Open d r, pool) = Inr (perr, r2, pool2)"
    and "recv_all dbg rcvs (emit [EvBcast doneSendingOpcode] r2) = Inr r4"
  shows "\<exists>r'. Run dbg steps q rcvs (r, pool) = Inr (r', pool2) \<and>
           (\<forall>e. perr = Some e \<longrightarrow> fin r' = Some (Some e)) \<and>
           (\<forall>e. perr = None \<and> err r4 = Some e \<longrightarrow> fin r' = Some (Some e)) \<and>
           (\<forall>e. err r = Some e \<longrightarrow> err r2 = Some e) \<and>
           (\<forall>e. err r2 = Some e \<longrightarrow> err r4 = Some e) \<and>
           err r' = err r4 \<and>
           (\<forall>c e. err r = Some e \<longrightarrow> err (snd (recv dbg c r)) = Some e) \<and>
           (\<forall>c e. err r = None \<and> delivered c \<and> Opcode (hdr c) = 0 \<and>
                  (lom_init c = Some e \<or> lom_init c = None \<and> put_result c = Some e) \<longrightarrow>
                  err (snd (recv dbg c r)) = Some e)"
proof -
  from jog_keeps [OF assms(2)] have l2: "\<forall>e. err r = Some e \<longrightarrow> err r2 = Some e"
    by (simp add: dm_Open_def)
  from recv_all_keeps [OF assms(3)] have l4: "\<forall>e. err r2 = Some e \<longrightarrow> err r4 = Some e"
    by simp
  have st: "err (snd (recv dbg c r)) = Some e"
    if "err r = None" "delivered c" "Opcode (hdr c) = 0"
      "lom_init c = Some e \<or> lom_init c = None \<and> put_result c = Some e" for c e
  proof -
    have op: "Opcode (hdr c) \<noteq> doneSendingOpcode"
      using that(3) by (simp add: doneSendingOpcode_def)
    have ok: "debug_Assert dbg (Opcode (hdr c) = 0) = None"
      using that(3) by (simp add: debug_Assert_def)
    from that(4) show ?thesis
      using recv_init_failed [OF that(2) op ok that(1)]
        recv_put_failed [OF that(2) op ok that(1)] that(1)
      by auto
  qed
  from l2 l4 st show ?thesis
    by (simp add: Run_unfold [OF assms] final_error_def recv_err_latched)
qed

theorem Run_terminal_error_witness:
  "\<exists>r'. Run False [Visit ex_visit_failed] Quiescent [ex_data_failing] (ex_xact, []) =
       Inr (r', [cpObj0]) \<and>
     fin r' = Some (Some (ErrOther ''checksum'')) \<and> err r' = Some (ErrOther ''disk'')"
proof -
  have d: "dm ex_xact = Some \<lparr>trname = ''transcpy_u1'', isOpen = False, registered = True\<rparr>"
    by (simp add: ex_xact_def)
  have k: "copy_result ex_visit_failed = (0, Some (ErrOther ''checksum''))"
    by (simp add: ex_visit_failed_def ex_visit_def)
  let ?r0 = "dm_Open \<lparr>trname = ''transcpy_u1'', isOpen = False, registered = True\<rparr> ex_xact"
  obtain r2 where j: "jog False [Visit ex_visit_failed] (?r0, []) =
      Inr (Some (ErrOther ''checksum''), r2, [cpObj0])" and e2: "err r2 = None"
    by (simp add: copyObject_failed [OF k] allocCpObjParams_def dm_Open_def ex_xact_def
        newXactTCB_def)
  have f: "delivered ex_data_failing" "Opcode (hdr ex_data_failing) \<noteq> doneSendingOpcode"
    "debug_Assert False (Opcode (hdr ex_data_failing) = 0) = None"
    "lom_init ex_data_failing = None" "put_result ex_data_failing = Some (ErrOther ''disk'')"
    by (simp_all add: delivered_def ex_data_failing_def doneSendingOpcode_def debug_Assert_def)
  obtain r4 where a: "recv_all False [ex_data_failing] (emit [EvBcast doneSendingOpcode] r2) =
      Inr r4" and e4: "err r4 = Some (ErrOther ''disk'')"
    by (simp add: recv_put_failed [OF f(1,2,3) _ f(4,5)] e2)
  from Run_terminal_error [OF d j a, of Quiescent] e4 show ?thesis
    by auto
qed

text \<open>
  Claim C4 as stated fails when a receive error is stored first and the walk fails
  afterwards: the job finishes with the error of the walk, not with the error
  stored first.
\<close>

theorem Run_receive_error_first_counterexample:
  "stored_error (Run False [Receive ex_data_failing, Visit ex_visit_failed] Quiescent []
     (ex_xact, [])) = Some (ErrOther ''disk'') \<and>
   terminal_error (Run False [Receive ex_data_failing, Visit ex_visit_failed] Quiescent []
     (ex_xact, [])) = Some (Some (ErrOther ''checksum''))"
proof -
  have d: "dm ex_xact = Some \<lparr>trname = ''transcpy_u1'', isOpen = False, registered = True\<rparr>"
    by (simp add: ex_xact_def)
  have k: "copy_result ex_visit_failed = (0, Some (ErrOther ''checksum''))"
    by (simp add: ex_visit_failed_def ex_visit_def)
  have f: "delivered ex_data_failing" "Opcode (hdr ex_data_failing) \<noteq> doneSendingOpcode"
    "debug_Assert False (Opcode (hdr ex_data_failing) = 0) = None"
    "lom_init ex_data_failing = None" "put_result ex_data_failing = Some (ErrOther ''disk'')"
    by (simp_all add: delivered_def ex_data_failing_def doneSendingOpcode_def debug_Assert_def)
  let ?r0 = "dm_Open \<lparr>trname = ''transcpy_u1'', isOpen = False, registered = True\<rparr> ex_xact"
  have e0: "err ?r0 = None"
    by (simp add: dm_Open_def ex_xact_def newXactTCB_def)
  obtain r2 where j: "jog False [Receive ex_data_failing, Visit ex_visit_failed] (?r0, []) =
      Inr (Some (ErrOther ''checksum''), r2, [cpObj0])" and e2: "err r2 = Some (ErrOther ''disk'')"
    by (simp add: recv_put_failed [OF f(1,2,3) e0 f(4,5)] copyObject_failed [OF k]
        allocCpObjParams_def e0)
  have a: "recv_all False [] (emit [EvBcast doneSendingOpcode] r2) =
      Inr (emit [EvBcast doneSendingOpcode] r2)"
    by simp
  show ?thesis
    by (simp add: Run_unfold [OF d j a] stored_error_def terminal_error_def final_error_def e2)
qed

text \<open>
  Claim C7. In every run that returns, the calls made are those of the complete
  walk (the jogger has returned, with an error or without), then one broadcast of
  the done marker, then calls among which there is no object copy and no second
  broadcast. Every copy of an object, the only way this node sends data, comes
  before the marker.
\<close>

theorem Run_done_marker_after_walk:
  assumes "Run dbg steps q rcvs (r, pool) = Inr (r', pool')"
  shows "\<exists>d perr r2 pre post.
           dm r = Some d \<and>
           jog dbg steps (dm_Open d r, pool) = Inr (perr, r2, pool') \<and>
           events r2 = events r @ EvDmOpen # pre \<and>
           events r' = events r2 @ EvBcast doneSendingOpcode # post \<and>
           (\<forall>ev\<in>set pre. \<not> is_bcast ev) \<and>
           (\<forall>ev\<in>set post. \<not> is_bcast ev \<and> \<not> is_copy ev)"
proof -
  from assms obtain d perr r2 r4 where d: "dm r = Some d"
    and j: "jog dbg steps (dm_Open d r, pool) = Inr (perr, r2, pool')"
    and a: "recv_all dbg rcvs (emit [EvBcast doneSendingOpcode] r2) = Inr r4"
    and r': "r' = Finish (final_error perr q r4)
          (dm_UnregRecv (dm_Close (final_error perr q r4) r4))"
    by (rule Run_cases)
  from jog_keeps [OF j] obtain pre where
    pre: "events r2 = events r @ EvDmOpen # pre" "\<forall>ev\<in>set pre. \<not> is_bcast ev"
    by (auto simp: dm_Open_def)
  from recv_all_keeps [OF a] obtain evs where
    evs: "events r4 = events r2 @ EvBcast doneSendingOpcode # evs"
      "\<forall>ev\<in>set evs. \<not> is_bcast ev \<and> \<not> is_copy ev"
    by auto
  let ?er = "final_error perr q r4"
  let ?post = "evs @ [EvDmClose ?er, EvUnregRecv, EvFinish ?er]"
  have post: "events r' = events r2 @ EvBcast doneSendingOpcode # ?post"
    "\<forall>ev\<in>set ?post. \<not> is_bcast ev \<and> \<not> is_copy ev"
    using evs by (simp_all add: r')
  from d j pre post show ?thesis by blast
qed

theorem Run_done_marker_after_walk_witness:
  "\<exists>r' p1 p2.
     Run False [Visit (ex_visit 10), Visit ex_visit_failed, Visit (ex_visit 10)] Quiescent []
       (ex_xact, []) = Inr (r', [cpObj0]) \<and>
     events r' = [EvDmOpen, EvCopyObject ''obj'' p1, EvCopyObject ''obj'' p2,
       EvBcast doneSendingOpcode, EvDmClose (Some (ErrOther ''checksum'')), EvUnregRecv,
       EvFinish (Some (ErrOther ''checksum''))]"
proof -
  let ?steps = "[Visit (ex_visit 10), Visit ex_visit_failed, Visit (ex_visit 10)]"
  have d: "dm ex_xact = Some \<lparr>trname = ''transcpy_u1'', isOpen = False, registered = True\<rparr>"
    by (simp add: ex_xact_def)
  have k: "copy_result (ex_visit 10) = (10, None)" "cap_status (ex_visit 10) = None"
    "copy_result ex_visit_failed = (0, Some (ErrOther ''checksum''))"
    "ObjName (v_lom (ex_visit 10)) = ''obj''" "ObjName (v_lom ex_visit_failed) = ''obj''"
    by (simp_all add: ex_visit_failed_def ex_visit_def)
  let ?r0 = "dm_Open \<lparr>trname = ''transcpy_u1'', isOpen = False, registered = True\<rparr> ex_xact"
  have e0: "events ex_xact = []" "err ex_xact = None"
    by (simp_all add: ex_xact_def newXactTCB_def)
  obtain r2 p1 p2 where j: "jog False ?steps (?r0, []) =
      Inr (Some (ErrOther ''checksum''), r2, [cpObj0])"
    and e2: "events r2 = [EvDmOpen, EvCopyObject ''obj'' p1, EvCopyObject ''obj'' p2]"
      "err r2 = None"
    by (simp add: copyObject_copied [OF k(1)] copyObject_failed [OF k(3)] k(2,4,5)
        allocCpObjParams_def dm_Open_def e0)
  have a: "recv_all False [] (emit [EvBcast doneSendingOpcode] r2) =
      Inr (emit [EvBcast doneSendingOpcode] r2)"
    by simp
  have run: "Run False ?steps Quiescent [] (ex_xact, []) =
      Inr (Finish (Some (ErrOther ''checksum''))
        (dm_UnregRecv (dm_Close (Some (ErrOther ''checksum''))
          (emit [EvBcast doneSendingOpcode] r2))), [cpObj0])"
    by (simp add: Run_unfold [OF d j a] final_error_def)
  from Run_done_marker_after_walk [OF run] show ?thesis
    by (simp add: run e2)
qed

subsection \<open>The counters over the life of the job\<close>

lemma walk_objs_nonneg: "0 \<le> walk_objs steps"
  by (induction steps rule: walk_objs.induct) simp_all

lemma walk_bytes_nonneg:
  "\<forall>v. Visit v \<in> set steps \<longrightarrow> 0 \<le> sint (counted v) \<Longrightarrow> 0 \<le> walk_bytes steps"
  by (induction steps rule: walk_bytes.induct) simp_all

lemma walk_objs_append: "walk_objs (a @ b) = walk_objs a + walk_objs b"
  by (induction a rule: walk_objs.induct) simp_all

lemma walk_bytes_append: "walk_bytes (a @ b) = walk_bytes a + walk_bytes b"
  by (induction a rule: walk_bytes.induct) simp_all

lemma copyObject_counts:
  "snd (copy_result v) = None \<Longrightarrow>
     objs (fst (snd (copyObject v (r, pool)))) = objs r + 1 \<and>
     bytes (fst (snd (copyObject v (r, pool)))) = bytes r + counted v"
  "snd (copy_result v) \<noteq> None \<Longrightarrow>
     objs (fst (snd (copyObject v (r, pool)))) = objs r \<and>
     bytes (fst (snd (copyObject v (r, pool)))) = bytes r"
  by (cases "copy_result v"; cases "snd (copy_result v)";
      simp add: copyObject_copied copyObject_failed counted_def)+

lemma copyObject_mono:
  assumes "0 \<le> sint (counted v)"
    and "sint (objs r) + 1 < 2 ^ 63" and "sint (bytes r) + sint (counted v) < 2 ^ 63"
  shows "sint (objs r) \<le> sint (objs (fst (snd (copyObject v (r, pool))))) \<and>
         sint (objs (fst (snd (copyObject v (r, pool))))) \<le> sint (objs r) + 1 \<and>
         sint (bytes r) \<le> sint (bytes (fst (snd (copyObject v (r, pool))))) \<and>
         sint (bytes (fst (snd (copyObject v (r, pool))))) \<le> sint (bytes r) + sint (counted v)"
proof (cases "snd (copy_result v)")
  case None
  have so: "sint (objs r + 1) = sint (objs r) + 1"
    using sint_ge [of "objs r"] assms(2) by (simp add: sint64_add [of "objs r" 1])
  have sb: "sint (bytes r + counted v) = sint (bytes r) + sint (counted v)"
    using sint_ge [of "bytes r"] assms(1,3) by (intro sint64_add) simp_all
  from copyObject_counts(1) [OF None, of r pool] so sb assms(1) show ?thesis by simp
next
  case (Some e)
  then have "snd (copy_result v) \<noteq> None" by simp
  from copyObject_counts(2) [OF this, of r pool] assms(1) show ?thesis by simp
qed

lemma jog_counters:
  assumes "jog dbg steps (r, pool) = Inr (er, r', pool')"
    and "\<forall>v. Visit v \<in> set steps \<longrightarrow> 0 \<le> sint (counted v)"
    and "sint (objs r) + walk_objs steps < 2 ^ 63"
    and "sint (bytes r) + walk_bytes steps < 2 ^ 63"
  shows "sint (objs r) \<le> sint (objs r') \<and> sint (objs r') \<le> sint (objs r) + walk_objs steps \<and>
         sint (bytes r) \<le> sint (bytes r') \<and> sint (bytes r') \<le> sint (bytes r) + walk_bytes steps"
  using assms
proof (induction steps arbitrary: r pool)
  case Nil
  then show ?case by simp
next
  case (Cons st rest)
  have nnr: "\<forall>v. Visit v \<in> set rest \<longrightarrow> 0 \<le> sint (counted v)"
    using Cons.prems(2) by simp
  note wo = walk_objs_nonneg [of rest] and wb = walk_bytes_nonneg [OF nnr]
  show ?case
  proof (cases st)
    case (Visit v)
    obtain e1 r1 p1 where c: "copyObject v (r, pool) = (e1, r1, p1)" by (metis prod_cases3)
    then have r1: "r1 = fst (snd (copyObject v (r, pool)))" by simp
    have nv: "0 \<le> sint (counted v)" using Cons.prems(2) Visit by simp
    have m: "sint (objs r) \<le> sint (objs r1) \<and> sint (objs r1) \<le> sint (objs r) + 1 \<and>
             sint (bytes r) \<le> sint (bytes r1) \<and>
             sint (bytes r1) \<le> sint (bytes r) + sint (counted v)"
      unfolding r1 using Cons.prems(3,4) Visit wo wb nv
      by (intro copyObject_mono) simp_all
    show ?thesis
    proof (cases e1)
      case None
      with Cons.prems(1) Visit c have rest: "jog dbg rest (r1, p1) = Inr (er, r', pool')"
        by simp
      have "sint (objs r1) + walk_objs rest < 2 ^ 63" "sint (bytes r1) + walk_bytes rest < 2 ^ 63"
        using m Cons.prems(3,4) Visit by simp_all
      from Cons.IH [OF rest nnr this] m Visit show ?thesis by simp
    next
      case (Some e)
      with Cons.prems(1) Visit c have "r' = r1" by simp
      with m wo wb Visit show ?thesis by simp
    qed
  next
    case (Receive c)
    obtain pn r1 where rc: "recv dbg c r = (pn, r1)" by (cases "recv dbg c r")
    with Cons.prems(1) Receive have rest: "jog dbg rest (r1, pool) = Inr (er, r', pool')"
      by (auto split: option.splits)
    from rc have r1: "r1 = snd (recv dbg c r)" by simp
    have k: "objs r1 = objs r" "bytes r1 = bytes r"
      by (simp_all add: r1 recv_keeps)
    from Cons.IH [OF rest nnr] Cons.prems(3,4) Receive k show ?thesis by simp
  qed
qed

lemma jog_append:
  "jog dbg (a @ b) s =
     (case jog dbg a s of
        Inl pn \<Rightarrow> Inl pn
      | Inr (er, s') \<Rightarrow> (case er of Some e \<Rightarrow> Inr (Some e, s') | None \<Rightarrow> jog dbg b s'))"
proof (induction a arbitrary: s)
  case Nil
  show ?case by simp
next
  case (Cons st rest)
  show ?case
  proof (cases st)
    case (Visit v)
    obtain e1 s1 where c: "copyObject v s = (e1, s1)" by (cases "copyObject v s")
    show ?thesis
      by (cases e1) (simp_all add: Visit c Cons.IH)
  next
    case (Receive c)
    obtain pn r1 where rc: "recv dbg c (fst s) = (pn, r1)" by (cases "recv dbg c (fst s)")
    show ?thesis
      by (cases pn) (simp_all add: Receive rc Cons.IH)
  qed
qed

lemma jog_prefix_counters:
  assumes "jog dbg a (r, pool) = Inr (e1, r1, p1)"
    and "jog dbg (a @ b) (r, pool) = Inr (e2, r2, p2)"
    and "\<forall>v. Visit v \<in> set (a @ b) \<longrightarrow> 0 \<le> sint (counted v)"
    and "sint (objs r) + walk_objs (a @ b) < 2 ^ 63"
    and "sint (bytes r) + walk_bytes (a @ b) < 2 ^ 63"
  shows "sint (objs r) \<le> sint (objs r1) \<and> sint (objs r1) \<le> sint (objs r2) \<and>
         sint (bytes r) \<le> sint (bytes r1) \<and> sint (bytes r1) \<le> sint (bytes r2)"
proof -
  have nna: "\<forall>v. Visit v \<in> set a \<longrightarrow> 0 \<le> sint (counted v)"
    and nnb: "\<forall>v. Visit v \<in> set b \<longrightarrow> 0 \<le> sint (counted v)"
    using assms(3) by simp_all
  note wa = walk_objs_nonneg [of a] walk_bytes_nonneg [OF nna]
    and wb = walk_objs_nonneg [of b] walk_bytes_nonneg [OF nnb]
  have ba: "sint (objs r) + walk_objs a < 2 ^ 63" "sint (bytes r) + walk_bytes a < 2 ^ 63"
    using assms(4,5) wb by (simp_all add: walk_objs_append walk_bytes_append)
  note m1 = jog_counters [OF assms(1) nna ba]
  show ?thesis
  proof (cases e1)
    case (Some e)
    with assms(1,2) have "r2 = r1" by (simp add: jog_append)
    with m1 show ?thesis by simp
  next
    case None
    with assms(1,2) have j: "jog dbg b (r1, p1) = Inr (e2, r2, p2)"
      by (simp add: jog_append)
    have bb: "sint (objs r1) + walk_objs b < 2 ^ 63" "sint (bytes r1) + walk_bytes b < 2 ^ 63"
      using m1 assms(4,5) by (simp_all add: walk_objs_append walk_bytes_append)
    from jog_counters [OF j nnb bb] m1 show ?thesis by simp
  qed
qed

text \<open>
  Claim C5. A call of \<open>copyObject\<close> whose copy succeeded adds one to the object
  counter and adds to the byte counter the size the copy returned, or the object's
  own size when the copy returned the sentinel of an unknown size; a call whose
  copy failed leaves both counters as they were, and so does every call of the
  receive handler. Over a run of the job, from its start through any two successive
  points of the walk to its finish, neither counter, read as a signed 64-bit value,
  ever decreases, as long as no size added is negative and the sums over the walk
  stay below \<open>2^63\<close>.
\<close>

theorem job_counters_monotone:
  assumes "\<forall>v. Visit v \<in> set steps \<longrightarrow> 0 \<le> sint (counted v)"
    and "sint (objs r) + walk_objs steps < 2 ^ 63"
    and "sint (bytes r) + walk_bytes steps < 2 ^ 63"
  shows "(\<forall>v r0 p0. snd (copy_result v) = None \<longrightarrow>
            objs (fst (snd (copyObject v (r0, p0)))) = objs r0 + 1 \<and>
            bytes (fst (snd (copyObject v (r0, p0)))) =
              bytes r0 + (if fst (copy_result v) = ContentLengthUnknown
                          then SizeBytes (v_lom v) else fst (copy_result v))) \<and>
         (\<forall>v r0 p0. snd (copy_result v) \<noteq> None \<longrightarrow>
            objs (fst (snd (copyObject v (r0, p0)))) = objs r0 \<and>
            bytes (fst (snd (copyObject v (r0, p0)))) = bytes r0) \<and>
         (\<forall>c r0. objs (snd (recv dbg c r0)) = objs r0 \<and> bytes (snd (recv dbg c r0)) = bytes r0) \<and>
         (\<forall>a b c d e1 r1 p1 e2 r2 p2 r' pool'.
            steps = a @ b @ c \<and> dm r = Some d \<and>
            jog dbg a (dm_Open d r, pool) = Inr (e1, r1, p1) \<and>
            jog dbg (a @ b) (dm_Open d r, pool) = Inr (e2, r2, p2) \<and>
            Run dbg steps q rcvs (r, pool) = Inr (r', pool') \<longrightarrow>
            sint (objs r) \<le> sint (objs r1) \<and> sint (objs r1) \<le> sint (objs r2) \<and>
            sint (objs r2) \<le> sint (objs r') \<and>
            sint (bytes r) \<le> sint (bytes r1) \<and> sint (bytes r1) \<le> sint (bytes r2) \<and>
            sint (bytes r2) \<le> sint (bytes r'))"
proof -
  have life: "sint (objs r) \<le> sint (objs r1) \<and> sint (objs r1) \<le> sint (objs r2) \<and>
      sint (objs r2) \<le> sint (objs r') \<and>
      sint (bytes r) \<le> sint (bytes r1) \<and> sint (bytes r1) \<le> sint (bytes r2) \<and>
      sint (bytes r2) \<le> sint (bytes r')"
    if s: "steps = a @ b @ c" and d: "dm r = Some d"
      and j1: "jog dbg a (dm_Open d r, pool) = Inr (e1, r1, p1)"
      and j2: "jog dbg (a @ b) (dm_Open d r, pool) = Inr (e2, r2, p2)"
      and run: "Run dbg steps q rcvs (r, pool) = Inr (r', pool')"
    for a b c d e1 r1 p1 e2 r2 p2 r' pool'
  proof -
    let ?r0 = "dm_Open d r"
    have o0: "objs ?r0 = objs r" "bytes ?r0 = bytes r"
      by (simp_all add: dm_Open_def)
    from run obtain d' perr r3 r4 where d': "dm r = Some d'"
      and j3: "jog dbg steps (dm_Open d' r, pool) = Inr (perr, r3, pool')"
      and a4: "recv_all dbg rcvs (emit [EvBcast doneSendingOpcode] r3) = Inr r4"
      and r': "r' = Finish (final_error perr q r4)
            (dm_UnregRecv (dm_Close (final_error perr q r4) r4))"
      by (rule Run_cases)
    from d d' have dd: "d' = d" by simp
    from recv_all_keeps [OF a4] have k4: "objs r4 = objs r3" "bytes r4 = bytes r3"
      by simp_all
    have k': "objs r' = objs r3" "bytes r' = bytes r3"
      by (simp_all add: r' k4)
    have nnc: "\<forall>v. Visit v \<in> set c \<longrightarrow> 0 \<le> sint (counted v)"
      using assms(1) s by simp
    note wc = walk_objs_nonneg [of c] walk_bytes_nonneg [OF nnc]
    have nab: "\<forall>v. Visit v \<in> set (a @ b) \<longrightarrow> 0 \<le> sint (counted v)"
      using assms(1) s by simp
    have bab: "sint (objs ?r0) + walk_objs (a @ b) < 2 ^ 63"
      "sint (bytes ?r0) + walk_bytes (a @ b) < 2 ^ 63"
      using assms(2,3) wc s o0 by (simp_all add: walk_objs_append walk_bytes_append)
    note m12 = jog_prefix_counters [OF j1 j2 nab bab]
    have j3': "jog dbg ((a @ b) @ c) (?r0, pool) = Inr (perr, r3, pool')"
      using j3 dd s by simp
    have nall: "\<forall>v. Visit v \<in> set ((a @ b) @ c) \<longrightarrow> 0 \<le> sint (counted v)"
      using assms(1) s by simp
    have ball: "sint (objs ?r0) + walk_objs ((a @ b) @ c) < 2 ^ 63"
      "sint (bytes ?r0) + walk_bytes ((a @ b) @ c) < 2 ^ 63"
      using assms(2,3) s o0 by simp_all
    note m23 = jog_prefix_counters [OF j2 j3' nall ball]
    from m12 m23 o0 k' show ?thesis by simp
  qed
  have cp: "counted v = (if fst (copy_result v) = ContentLengthUnknown
      then SizeBytes (v_lom v) else fst (copy_result v))" for v
    by (simp add: counted_def)
  show ?thesis
    using life by (simp add: copyObject_counts [unfolded cp] recv_keeps) blast
qed

theorem job_counters_monotone_witness:
  "\<exists>r1 p1 r2 p2 r' pool'.
     jog True [Visit (ex_visit 10)]
       (dm_Open \<lparr>trname = ''transcpy_u1'', isOpen = False, registered = True\<rparr> ex_xact, []) =
       Inr (None, r1, p1) \<and>
     jog True [Visit (ex_visit 10), Visit ex_visit_unknown]
       (dm_Open \<lparr>trname = ''transcpy_u1'', isOpen = False, registered = True\<rparr> ex_xact, []) =
       Inr (None, r2, p2) \<and>
     Run True [Visit (ex_visit 10), Visit ex_visit_unknown, Visit ex_visit_failed] Quiescent
       [ex_done] (ex_xact, []) = Inr (r', pool') \<and>
     bytes ex_xact = 0 \<and> bytes r1 = 10 \<and> bytes r2 = 40 \<and> bytes r' = 40 \<and>
     objs ex_xact = 0 \<and> objs r1 = 1 \<and> objs r2 = 2 \<and> objs r' = 2 \<and>
     sint (bytes ex_xact) \<le> sint (bytes r1) \<and> sint (bytes r1) \<le> sint (bytes r2) \<and>
     sint (bytes r2) \<le> sint (bytes r')"
proof -
  let ?d = "\<lparr>trname = ''transcpy_u1'', isOpen = False, registered = True\<rparr>"
  let ?r0 = "dm_Open ?d ex_xact"
  let ?steps = "[Visit (ex_visit 10), Visit ex_visit_unknown, Visit ex_visit_failed]"
  have x: "dm ex_xact = Some ?d" "objs ex_xact = 0" "bytes ex_xact = 0" "refc ex_xact = 2"
    "err ex_xact = None"
    by (simp_all add: ex_xact_def newXactTCB_def)
  have k: "copy_result (ex_visit 10) = (10, None)" "cap_status (ex_visit 10) = None"
    "copy_result ex_visit_unknown = (ContentLengthUnknown, None)"
    "cap_status ex_visit_unknown = None" "SizeBytes (v_lom ex_visit_unknown) = 30"
    "copy_result ex_visit_failed = (0, Some (ErrOther ''checksum''))"
    by (simp_all add: ex_visit_def ex_visit_unknown_def ex_visit_failed_def)
  have cn: "counted (ex_visit 10) = 10" "counted ex_visit_unknown = 30"
    "counted ex_visit_failed = 0"
    by (simp_all add: counted_def k ContentLengthUnknown_def)
  have nn: "\<forall>v. Visit v \<in> set ?steps \<longrightarrow> 0 \<le> sint (counted v)"
    by (auto simp: cn)
  have bo: "sint (objs ex_xact) + walk_objs ?steps < 2 ^ 63"
    "sint (bytes ex_xact) + walk_bytes ?steps < 2 ^ 63"
    by (simp_all add: x cn)
  obtain r1 p1 where j1: "jog True [Visit (ex_visit 10)] (?r0, []) = Inr (None, r1, p1)"
    and v1: "objs r1 = 1" "bytes r1 = 10"
    by (simp add: copyObject_copied [OF k(1)] k(2) dm_Open_def x ContentLengthUnknown_def)
  obtain r2 p2 where
    j2: "jog True ([Visit (ex_visit 10)] @ [Visit ex_visit_unknown]) (?r0, []) = Inr (None, r2, p2)"
    and v2: "objs r2 = 2" "bytes r2 = 40"
    by (simp add: copyObject_copied [OF k(1)] copyObject_copied [OF k(3)] k(2,4,5) dm_Open_def x
        ContentLengthUnknown_def)
  obtain r3 p3 where j3: "jog True ?steps (?r0, []) = Inr (Some (ErrOther ''checksum''), r3, p3)"
    and v3: "objs r3 = 2" "bytes r3 = 40" "refc r3 = 2"
    by (simp add: copyObject_copied [OF k(1)] copyObject_copied [OF k(3)]
        copyObject_failed [OF k(6)] k(2,4,5) dm_Open_def x ContentLengthUnknown_def)
  have m: "\<forall>c\<in>set [ex_done]. done_marker c"
    by (simp add: done_marker_def delivered_def ex_done_def)
  from recv_all_done_markers [OF m, of "emit [EvBcast doneSendingOpcode] r3" True] v3
  obtain r4 where a: "recv_all True [ex_done] (emit [EvBcast doneSendingOpcode] r3) = Inr r4"
    by auto
  from recv_all_keeps [OF a] v3 have v4: "objs r4 = 2" "bytes r4 = 40" by simp_all
  obtain r' where run: "Run True ?steps Quiescent [ex_done] (ex_xact, []) = Inr (r', p3)"
    and v': "objs r' = 2" "bytes r' = 40"
    by (simp add: Run_unfold [OF x(1) j3 a] v4)
  have s: "?steps = [Visit (ex_visit 10)] @ [Visit ex_visit_unknown] @ [Visit ex_visit_failed]"
    by simp
  from job_counters_monotone [OF nn bo, of True "[]" Quiescent "[ex_done]"] s x(1) j1 j2 run
  have "sint (bytes ex_xact) \<le> sint (bytes r1) \<and> sint (bytes r1) \<le> sint (bytes r2) \<and>
      sint (bytes r2) \<le> sint (bytes r')"
    by blast
  with j1 j2 run x v1 v2 v' show ?thesis
    by auto
qed

subsection \<open>Two runs from start to finish\<close>

text \<open>
  A single-node cluster copying three objects of 10, 20 and 30 bytes: the counter of
  peers starts and stays at zero, three objects and 60 bytes are counted, and the
  job finishes without an error. A capacity error after the second of three
  objects: two objects are counted and the job finishes with an aborted error.
\<close>

lemma scenario_single_node:
  "\<exists>e' x r' pool'.
     Start ex_store None 1 None None ex_factory = Inr (None, e') \<and> xact e' = Some x \<and>
     refc x = 0 \<and>
     Run True [Visit (ex_visit 10), Visit (ex_visit 20), Visit (ex_visit 30)] Quiescent []
       (x, []) = Inr (r', pool') \<and>
     objs r' = 3 \<and> bytes r' = 60 \<and> refc r' = 0 \<and> fin r' = Some None"
proof -
  obtain e' x where s: "Start ex_store None 1 None None ex_factory = Inr (None, e')"
    and x: "xact e' = Some x" "refc x = 0" "objs x = 0" "bytes x = 0" "err x = None"
      "dm x = Some \<lparr>trname = ''transcpy_u1'', isOpen = False, registered = True\<rparr>"
    by (simp add: Start_def ex_store_def ex_factory_def newDM_def newXactTCB_def Let_def)
  have k: "copy_result (ex_visit n) = (n, None)" "cap_status (ex_visit n) = None"
    "SizeBytes (v_lom (ex_visit n)) = n" for n
    by (simp_all add: ex_visit_def)
  let ?steps = "[Visit (ex_visit 10), Visit (ex_visit 20), Visit (ex_visit 30)]"
  let ?r0 = "dm_Open \<lparr>trname = ''transcpy_u1'', isOpen = False, registered = True\<rparr> x"
  obtain r2 p2 where j: "jog True ?steps (?r0, []) = Inr (None, r2, p2)"
    and r2: "objs r2 = 3" "bytes r2 = 60" "refc r2 = 0" "err r2 = None"
    by (simp add: copyObject_copied [OF k(1)] k(2) dm_Open_def x ContentLengthUnknown_def)
  have a: "recv_all True [] (emit [EvBcast doneSendingOpcode] r2) =
      Inr (emit [EvBcast doneSendingOpcode] r2)"
    by simp
  have "Run True ?steps Quiescent [] (x, []) =
      Inr (Finish None (dm_UnregRecv (dm_Close None (emit [EvBcast doneSendingOpcode] r2))), p2)"
    by (simp add: Run_unfold [OF x(6) j a] final_error_def r2)
  with s x r2 show ?thesis
    by (simp add: Finish_def dm_UnregRecv_def dm_Close_def)
qed

lemma scenario_capacity_abort:
  "\<exists>r' pool' e.
     Run True [Visit (ex_visit 10), Visit ((ex_visit 20)\<lparr>cap_status := Some (ErrOOS ''full'')\<rparr>),
               Visit (ex_visit 30)] Quiescent [ex_done, ex_done] (ex_xact, []) = Inr (r', pool') \<and>
     objs r' = 2 \<and> fin r' = Some (Some e) \<and> IsErrAborted e"
proof -
  let ?v2 = "(ex_visit 20)\<lparr>cap_status := Some (ErrOOS ''full'')\<rparr>"
  let ?steps = "[Visit (ex_visit 10), Visit ?v2, Visit (ex_visit 30)]"
  have x: "dm ex_xact = Some \<lparr>trname = ''transcpy_u1'', isOpen = False, registered = True\<rparr>"
    "objs ex_xact = 0" "refc ex_xact = 2" "err ex_xact = None"
    by (simp_all add: ex_xact_def newXactTCB_def)
  have k: "copy_result (ex_visit n) = (n, None)" "cap_status (ex_visit n) = None"
    "copy_result ?v2 = (20, None)" "cap_status ?v2 = Some (ErrOOS ''full'')" for n
    by (simp_all add: ex_visit_def)
  let ?r0 = "dm_Open \<lparr>trname = ''transcpy_u1'', isOpen = False, registered = True\<rparr> ex_xact"
  obtain r2 p2 e where j: "jog True ?steps (?r0, []) = Inr (Some e, r2, p2)"
    and r2: "objs r2 = 2" "refc r2 = 2" "IsErrAborted e"
    by (simp add: copyObject_copied [OF k(1)] copyObject_copied [OF k(3)] k(2,4) dm_Open_def x
        NewErrAborted_def)
  have m: "\<forall>c\<in>set [ex_done, ex_done]. done_marker c"
    by (simp add: done_marker_def delivered_def ex_done_def)
  from recv_all_done_markers [OF m, of "emit [EvBcast doneSendingOpcode] r2" True] r2
  obtain r4 where a: "recv_all True [ex_done, ex_done] (emit [EvBcast doneSendingOpcode] r2) = Inr r4"
    by auto
  from recv_all_keeps [OF a] r2 have "objs r4 = 2" by simp
  with r2(3) show ?thesis
    by (simp add: Run_unfold [OF x(1) j a] final_error_def)
qed

end
